theory Spec2Isabelle
  imports Main "HOL-Library.AList"
begin

section \<open>Configuration (utility/config.py)\<close>

text \<open>
  The module \<^verbatim>\<open>config\<close> is a record of the constants the acquisition code reads.
  \<^verbatim>\<open>TIME_BETWEEN_READINGS\<close> (0.1 s) is not a field: a call of
  \<^verbatim>\<open>time.sleep(config.TIME_BETWEEN_READINGS)\<close> is counted, not timed.
\<close>

record config =
  NODE :: int
  STORE_LOCAL :: bool
  SCP_COPY :: bool
  CO2_ATTEMPTS :: nat
  NUM_READINGS :: nat

definition config_py :: config where
  "config_py = \<lparr>NODE = 69, STORE_LOCAL = False, SCP_COPY = False,
                 CO2_ATTEMPTS = 5, NUM_READINGS = 10\<rparr>"

definition STAGGER_INTERVAL :: nat where
  "STAGGER_INTERVAL = 20"

section \<open>Python values and exceptions\<close>

datatype error =
  RuntimeError | OSError | TypeError | AttributeError | IndexError | KeyError
  | UnboundLocalError

text \<open>
  What one entry of a sensor's private dictionary can hold: the list of accumulated
  samples, or, once \<^verbatim>\<open>_read\<close> has run, the reduced number or \<^verbatim>\<open>None\<close>.
  Readings are integers; the order of the integers stands for Python's order on the
  numbers a driver returns.
\<close>

datatype pyval = PList "int list" | PInt int | PNone

fun truthy :: "pyval \<Rightarrow> bool" where
  "truthy (PList xs) = (xs \<noteq> [])"
| "truthy (PInt v) = (v \<noteq> 0)"
| "truthy PNone = False"

type_synonym dict = "(string \<times> pyval) list"

section \<open>The median reduction (utils.py, find_median_data)\<close>

text \<open>
  \<^verbatim>\<open>if data_list:\<close> is the truth value of the argument; \<^verbatim>\<open>len\<close> of a number raises
  TypeError. On a list of the configured length the list is sorted and the element at
  \<^verbatim>\<open>int(len(data_list)/2)\<close> is returned; for a length that is a natural number this index
  is \<open>length xs div 2\<close>.
\<close>

fun find_median_data :: "config \<Rightarrow> pyval \<Rightarrow> error + pyval" where
  "find_median_data cfg (PList xs) =
     (if xs \<noteq> [] then
        (if length xs = NUM_READINGS cfg
         then Inr (PInt (sort xs ! (length xs div 2)))
         else Inr PNone)
      else Inr PNone)"
| "find_median_data cfg (PInt v) = (if v \<noteq> 0 then Inl TypeError else Inr PNone)"
| "find_median_data cfg PNone = Inr PNone"

section \<open>The scheduler (utils.py, Controller._calc_next_reading)\<close>

text \<open>
  The fields of \<^verbatim>\<open>datetime.datetime.now()\<close> that the scheduler and the wall clock need.
  The delay is \<^verbatim>\<open>(STAGGER_INTERVAL - int(minute % STAGGER_INTERVAL)) * 60 + second\<close>.
\<close>

record datetime =
  hour :: nat
  minute :: nat
  second :: nat

definition calc_next_reading :: "datetime \<Rightarrow> nat" where
  "calc_next_reading current_time =
     (let minutes_next = STAGGER_INTERVAL - (minute current_time mod STAGGER_INTERVAL);
          next_reading = (minutes_next * 60) + second current_time
      in next_reading)"

text \<open>
  The wall clock after \<open>d\<close> more seconds, and what the claim about the scheduler speaks
  of: a time of day is on a stagger boundary when its minute is a multiple of the
  interval and its second is 0.
\<close>

definition seconds_of_day :: "datetime \<Rightarrow> nat" where
  "seconds_of_day t = (hour t * 60 + minute t) * 60 + second t"

definition clock_after :: "datetime \<Rightarrow> nat \<Rightarrow> datetime" where
  "clock_after t d =
     (let s = seconds_of_day t + d
      in \<lparr>hour = (s div 3600) mod 24, minute = (s div 60) mod 60, second = s mod 60\<rparr>)"

definition on_stagger_boundary :: "datetime \<Rightarrow> bool" where
  "on_stagger_boundary t = (minute t mod STAGGER_INTERVAL = 0 \<and> second t = 0)"

definition valid_time :: "datetime \<Rightarrow> bool" where
  "valid_time t = (hour t < 24 \<and> minute t < 60 \<and> second t < 60)"

section \<open>Sensors (utils.py, the classes of the sensor objects)\<close>

text \<open>
  One constructor for each class that \<^verbatim>\<open>Controller._create_objects\<close> can instantiate;
  \<^verbatim>\<open>isinstance\<close> is a match on the constructor. A sensor object carries its private
  dictionary; the CO2 sensor also carries \<^verbatim>\<open>temperature_compensation\<close> and
  \<^verbatim>\<open>humidity_compensation\<close>.
\<close>

datatype sensor =
  Camera
  | TEMP_AHT21 dict
  | CO2_ENS160 dict int int
  | RGB_TCS34725 dict
  | IR_MLX90614 dict
  | UV_LTR390 dict

fun class_name :: "sensor \<Rightarrow> string" where
  "class_name Camera = ''Camera''"
| "class_name (TEMP_AHT21 d) = ''TEMP_AHT21''"
| "class_name (CO2_ENS160 d tc hc) = ''CO2_ENS160''"
| "class_name (RGB_TCS34725 d) = ''RGB_TCS34725''"
| "class_name (IR_MLX90614 d) = ''IR_MLX90614''"
| "class_name (UV_LTR390 d) = ''UV_LTR390''"

fun sensor_data :: "sensor \<Rightarrow> dict" where
  "sensor_data Camera = []"
| "sensor_data (TEMP_AHT21 d) = d"
| "sensor_data (CO2_ENS160 d tc hc) = d"
| "sensor_data (RGB_TCS34725 d) = d"
| "sensor_data (IR_MLX90614 d) = d"
| "sensor_data (UV_LTR390 d) = d"

fun set_sensor_data :: "dict \<Rightarrow> sensor \<Rightarrow> sensor" where
  "set_sensor_data d' Camera = Camera"
| "set_sensor_data d' (TEMP_AHT21 d) = TEMP_AHT21 d'"
| "set_sensor_data d' (CO2_ENS160 d tc hc) = CO2_ENS160 d' tc hc"
| "set_sensor_data d' (RGB_TCS34725 d) = RGB_TCS34725 d'"
| "set_sensor_data d' (IR_MLX90614 d) = IR_MLX90614 d'"
| "set_sensor_data d' (UV_LTR390 d) = UV_LTR390 d'"

text \<open>\<^verbatim>\<open>reset_sensor_data\<close>: a new dictionary with an empty list for every attribute.\<close>

fun reset_sensor_data :: "sensor \<Rightarrow> sensor" where
  "reset_sensor_data Camera = Camera"
| "reset_sensor_data (TEMP_AHT21 d) =
     TEMP_AHT21 [(''temperature'', PList []), (''relative_humidity'', PList [])]"
| "reset_sensor_data (CO2_ENS160 d tc hc) =
     CO2_ENS160 [(''AQI'', PList []), (''TVOC'', PList []), (''eCO2'', PList [])] tc hc"
| "reset_sensor_data (RGB_TCS34725 d) =
     RGB_TCS34725 [(''color'', PList []), (''color_temperature'', PList []),
                   (''lux'', PList []), (''color_rgb_bytes'', PList [])]"
| "reset_sensor_data (IR_MLX90614 d) =
     IR_MLX90614 [(''ambient_temperature'', PList []), (''object_temperature'', PList [])]"
| "reset_sensor_data (UV_LTR390 d) =
     UV_LTR390 [(''uvi'', PList []), (''lux'', PList []), (''light'', PList []),
                (''uvs'', PList [])]"

text \<open>
  The constructors \<^verbatim>\<open>__init__\<close>: each calls \<^verbatim>\<open>reset_sensor_data\<close>; the CO2 sensor then
  sets its compensation fields to 25 and 50.
\<close>

definition init_TEMP_AHT21 :: sensor where
  "init_TEMP_AHT21 = reset_sensor_data (TEMP_AHT21 [])"

definition init_CO2_ENS160 :: sensor where
  "init_CO2_ENS160 = (case reset_sensor_data (CO2_ENS160 [] 0 0) of
       CO2_ENS160 d tc hc \<Rightarrow> CO2_ENS160 d 25 50 | s \<Rightarrow> s)"

definition init_RGB_TCS34725 :: sensor where
  "init_RGB_TCS34725 = reset_sensor_data (RGB_TCS34725 [])"

definition init_IR_MLX90614 :: sensor where
  "init_IR_MLX90614 = reset_sensor_data (IR_MLX90614 [])"

section \<open>The hardware and the world around the controller\<close>

text \<open>
  The drivers are outside the repository. \<open>getattr hw t c key\<close> is the outcome of
  \<^verbatim>\<open>getattr(self, key)\<close> on the sensor of class \<open>c\<close> when it is the \<open>t\<close>-th access to
  the hardware: a value or a raised exception. \<open>capture_file\<close> is the outcome of the
  camera's capture and \<open>now\<close> the wall clock. The world counts the accesses made, the
  calls of \<^verbatim>\<open>time.sleep(config.TIME_BETWEEN_READINGS)\<close>, and the seconds waited by the
  scheduler.
\<close>

record hardware =
  getattr :: "nat \<Rightarrow> string \<Rightarrow> string \<Rightarrow> error + int"
  capture_file :: "nat \<Rightarrow> error + string"
  now :: "nat \<Rightarrow> datetime"

record world =
  ticks :: nat
  sleeps :: nat
  waited :: nat

definition tick :: "world \<Rightarrow> world" where
  "tick w = w\<lparr>ticks := Suc (ticks w)\<rparr>"

definition sleep :: "world \<Rightarrow> world" where
  "sleep w = w\<lparr>sleeps := Suc (sleeps w)\<rparr>"

section \<open>Sampling (collect_data_for_median)\<close>

text \<open>
  TEMP_AHT21, RGB_TCS34725, IR_MLX90614 and UV_LTR390 share one body:
  \<^verbatim>\<open>for key in d.keys(): d[key].append(getattr(self, key))\<close>.
  Python looks \<^verbatim>\<open>append\<close> up on the entry before it evaluates the argument, so an
  entry that is no list raises AttributeError before the hardware is read.
\<close>

fun append_readings ::
  "hardware \<Rightarrow> string \<Rightarrow> dict \<Rightarrow> world \<Rightarrow> error + (dict \<times> world)" where
  "append_readings hw c [] w = Inr ([], w)"
| "append_readings hw c ((key, slot) # rest) w =
     (case slot of
        PList xs \<Rightarrow>
          (case getattr hw (ticks w) c key of
             Inl e \<Rightarrow> Inl e
           | Inr reading \<Rightarrow>
               (case append_readings hw c rest (tick w) of
                  Inl e \<Rightarrow> Inl e
                | Inr (rest', w') \<Rightarrow> Inr ((key, PList (xs @ [reading])) # rest', w')))
      | _ \<Rightarrow> Inl AttributeError)"

text \<open>
  CO2_ENS160: for each key, up to \<^verbatim>\<open>CO2_ATTEMPTS\<close> reads; a reading of 0 sleeps and
  tries again, any other reading is appended and ends the attempts for the key. When
  the attempts run out the loop ends with nothing appended.
\<close>

fun co2_attempts ::
  "hardware \<Rightarrow> nat \<Rightarrow> string \<Rightarrow> pyval \<Rightarrow> world \<Rightarrow> error + (pyval \<times> world)" where
  "co2_attempts hw 0 key slot w = Inr (slot, w)"
| "co2_attempts hw (Suc n) key slot w =
     (case getattr hw (ticks w) ''CO2_ENS160'' key of
        Inl e \<Rightarrow> Inl e
      | Inr reading \<Rightarrow>
          if reading = 0 then co2_attempts hw n key slot (sleep (tick w))
          else (case slot of
                  PList xs \<Rightarrow> Inr (PList (xs @ [reading]), tick w)
                | _ \<Rightarrow> Inl AttributeError))"

fun co2_collect ::
  "config \<Rightarrow> hardware \<Rightarrow> dict \<Rightarrow> world \<Rightarrow> error + (dict \<times> world)" where
  "co2_collect cfg hw [] w = Inr ([], w)"
| "co2_collect cfg hw ((key, slot) # rest) w =
     (case co2_attempts hw (CO2_ATTEMPTS cfg) key slot w of
        Inl e \<Rightarrow> Inl e
      | Inr (slot', w') \<Rightarrow>
          (case co2_collect cfg hw rest w' of
             Inl e \<Rightarrow> Inl e
           | Inr (rest', w'') \<Rightarrow> Inr ((key, slot') # rest', w'')))"

text \<open>The method call \<^verbatim>\<open>sensor.collect_data_for_median()\<close>, dispatched on the class.\<close>

fun collect_data_for_median ::
  "config \<Rightarrow> hardware \<Rightarrow> sensor \<Rightarrow> world \<Rightarrow> error + (sensor \<times> world)" where
  "collect_data_for_median cfg hw Camera w = Inl AttributeError"
| "collect_data_for_median cfg hw (CO2_ENS160 d tc hc) w =
     (case co2_collect cfg hw d w of
        Inl e \<Rightarrow> Inl e
      | Inr (d', w') \<Rightarrow> Inr (CO2_ENS160 d' tc hc, w'))"
| "collect_data_for_median cfg hw s w =
     (case append_readings hw (class_name s) (sensor_data s) w of
        Inl e \<Rightarrow> Inl e
      | Inr (d', w') \<Rightarrow> Inr (set_sensor_data d' s, w'))"

section \<open>Reduction and packaging (_read, package)\<close>

text \<open>
  \<^verbatim>\<open>_read\<close>, the same in every sensor class: each entry is replaced by its median, in
  the order of the keys; a RuntimeError is caught and gives False (the entries already
  replaced stay replaced), any other exception propagates.
\<close>

fun sensor_read :: "config \<Rightarrow> dict \<Rightarrow> error + (bool \<times> dict)" where
  "sensor_read cfg [] = Inr (True, [])"
| "sensor_read cfg ((key, slot) # rest) =
     (case find_median_data cfg slot of
        Inl e \<Rightarrow> (if e = RuntimeError then Inr (False, (key, slot) # rest) else Inl e)
      | Inr v \<Rightarrow>
          (case sensor_read cfg rest of
             Inl e \<Rightarrow> Inl e
           | Inr (ok, rest') \<Rightarrow> Inr (ok, (key, v) # rest')))"

text \<open>
  \<^verbatim>\<open>package\<close> of TEMP_AHT21, RGB_TCS34725, IR_MLX90614 and UV_LTR390: when \<^verbatim>\<open>_read\<close> is
  true the node identifier is stored under "Node" and the dictionary is the Reading.
\<close>

definition package_plain :: "config \<Rightarrow> dict \<Rightarrow> error + (dict option \<times> dict)" where
  "package_plain cfg d =
     (case sensor_read cfg d of
        Inl e \<Rightarrow> Inl e
      | Inr (ok, d') \<Rightarrow>
          if ok then (let d'' = AList.update ''Node'' (PInt (NODE cfg)) d'
                      in Inr (Some d'', d''))
          else Inr (None, d'))"

text \<open>
  \<^verbatim>\<open>package\<close> of CO2_ENS160: as above, and every entry must be truthy after the
  reduction.
\<close>

definition package_co2 :: "config \<Rightarrow> dict \<Rightarrow> error + (dict option \<times> dict)" where
  "package_co2 cfg d =
     (case sensor_read cfg d of
        Inl e \<Rightarrow> Inl e
      | Inr (ok, d') \<Rightarrow>
          if ok \<and> list_all (\<lambda>(key, v). truthy v) d'
          then (let d'' = AList.update ''Node'' (PInt (NODE cfg)) d'
                in Inr (Some d'', d''))
          else Inr (None, d'))"

text \<open>
  The method call \<^verbatim>\<open>sensor.package()\<close>: the data returned is the one-entry dictionary
  from the class name to the Reading, here the pair.
\<close>

fun package :: "config \<Rightarrow> sensor \<Rightarrow> error + ((string \<times> dict) option \<times> sensor)" where
  "package cfg Camera = Inl AttributeError"
| "package cfg (CO2_ENS160 d tc hc) =
     (case package_co2 cfg d of
        Inl e \<Rightarrow> Inl e
      | Inr (r, d') \<Rightarrow> Inr (map_option (Pair ''CO2_ENS160'') r, CO2_ENS160 d' tc hc))"
| "package cfg s =
     (case package_plain cfg (sensor_data s) of
        Inl e \<Rightarrow> Inl e
      | Inr (r, d') \<Rightarrow> Inr (map_option (Pair (class_name s)) r, set_sensor_data d' s))"

section \<open>Compensation values (TEMP_AHT21.get_temperature, get_humidity)\<close>

text \<open>
  \<^verbatim>\<open>temp = d["temperature"][0]; return temp if temp else 25\<close>: a missing key raises
  KeyError, an empty list IndexError, an entry that is no list TypeError.
\<close>

definition first_sample :: "dict \<Rightarrow> string \<Rightarrow> error + int" where
  "first_sample d key =
     (case map_of d key of
        None \<Rightarrow> Inl KeyError
      | Some (PList []) \<Rightarrow> Inl IndexError
      | Some (PList (x # xs)) \<Rightarrow> Inr x
      | Some _ \<Rightarrow> Inl TypeError)"

definition get_temperature :: "dict \<Rightarrow> error + int" where
  "get_temperature d =
     (case first_sample d ''temperature'' of
        Inl e \<Rightarrow> Inl e
      | Inr temp \<Rightarrow> Inr (if temp \<noteq> 0 then temp else 25))"

definition get_humidity :: "dict \<Rightarrow> error + int" where
  "get_humidity d =
     (case first_sample d ''relative_humidity'' of
        Inl e \<Rightarrow> Inl e
      | Inr humidity \<Rightarrow> Inr (if humidity \<noteq> 0 then humidity else 50))"

section \<open>The camera (Camera.capture_image, Controller._ssh_copy_to_hub)\<close>

text \<open>
  \<^verbatim>\<open>capture_image\<close> returns the path of the image; a RuntimeError is caught and gives
  None, any other exception propagates. \<^verbatim>\<open>_ssh_copy_to_hub\<close> starts with
  \<^verbatim>\<open>os.path.exists(image_path)\<close>, which raises TypeError on None.
\<close>

definition capture_image :: "hardware \<Rightarrow> world \<Rightarrow> error + (string option \<times> world)" where
  "capture_image hw w =
     (case capture_file hw (ticks w) of
        Inl e \<Rightarrow> (if e = RuntimeError then Inr (None, tick w) else Inl e)
      | Inr full_image_path \<Rightarrow> Inr (Some full_image_path, tick w))"

definition ssh_copy_to_hub :: "string option \<Rightarrow> error + unit" where
  "ssh_copy_to_hub image_path = (case image_path of None \<Rightarrow> Inl TypeError | Some p \<Rightarrow> Inr ())"

section \<open>One acquisition cycle (Controller._gather_sensor_data)\<close>

text \<open>
  The first loop: it records the position of the temperature/humidity sensor and of the
  CO2 sensor (\<^verbatim>\<open>aht21_exists\<close> and \<^verbatim>\<open>co2_exists\<close> are true exactly when a position was
  recorded) and captures an image on the camera. The objects of the list are distinct
  objects, so \<^verbatim>\<open>self.__current_objects.index(sensor)\<close> is the position the loop is at.
\<close>

fun scan_objects ::
  "config \<Rightarrow> hardware \<Rightarrow> nat \<Rightarrow> sensor list \<Rightarrow> nat option \<times> nat option \<Rightarrow> world
     \<Rightarrow> error + ((nat option \<times> nat option) \<times> world)" where
  "scan_objects cfg hw i [] idx w = Inr (idx, w)"
| "scan_objects cfg hw i (TEMP_AHT21 d # rest) (aht21_index, co2_index) w =
     scan_objects cfg hw (Suc i) rest (Some i, co2_index) w"
| "scan_objects cfg hw i (CO2_ENS160 d tc hc # rest) (aht21_index, co2_index) w =
     scan_objects cfg hw (Suc i) rest (aht21_index, Some i) w"
| "scan_objects cfg hw i (Camera # rest) idx w =
     (case capture_image hw w of
        Inl e \<Rightarrow> Inl e
      | Inr (full_image_path, w') \<Rightarrow>
          if STORE_LOCAL cfg \<and> SCP_COPY cfg then
            (case ssh_copy_to_hub full_image_path of
               Inl e \<Rightarrow> Inl e
             | Inr u \<Rightarrow> scan_objects cfg hw (Suc i) rest idx w')
          else scan_objects cfg hw (Suc i) rest idx w')"
| "scan_objects cfg hw i (s # rest) idx w = scan_objects cfg hw (Suc i) rest idx w"

text \<open>
  \<^verbatim>\<open>if aht21_exists and co2_exists: if co2_index < aht21_index:
  objs.append(objs.pop(co2_index))\<close>; \<^verbatim>\<open>pop\<close> raises IndexError out of range.
\<close>

definition pop_append :: "nat \<Rightarrow> 'a list \<Rightarrow> error + 'a list" where
  "pop_append i xs =
     (if i < length xs then Inr (take i xs @ drop (Suc i) xs @ [xs ! i]) else Inl IndexError)"

definition reorder :: "nat option \<Rightarrow> nat option \<Rightarrow> sensor list \<Rightarrow> error + sensor list" where
  "reorder aht21_index co2_index objs =
     (case (aht21_index, co2_index) of
        (Some a, Some c) \<Rightarrow> (if c < a then pop_append c objs else Inr objs)
      | _ \<Rightarrow> Inr objs)"

text \<open>
  The body of the inner loop for one sensor. The local variables \<^verbatim>\<open>aht21_temperature\<close>
  and \<^verbatim>\<open>aht21_humidity\<close> are unbound (None) until the temperature/humidity sensor has
  been sampled with a CO2 sensor present; reading an unbound local raises
  UnboundLocalError.
\<close>

fun sample_sensor ::
  "config \<Rightarrow> hardware \<Rightarrow> bool \<Rightarrow> bool \<Rightarrow> sensor \<Rightarrow> int option \<times> int option \<Rightarrow> world
     \<Rightarrow> error + (sensor \<times> (int option \<times> int option) \<times> world)" where
  "sample_sensor cfg hw aht21_exists co2_exists Camera loc w = Inr (Camera, loc, w)"
| "sample_sensor cfg hw aht21_exists co2_exists (TEMP_AHT21 d) loc w =
     (if co2_exists then
        (case collect_data_for_median cfg hw (TEMP_AHT21 d) w of
           Inl e \<Rightarrow> Inl e
         | Inr (s', w') \<Rightarrow>
             (case get_temperature (sensor_data s') of
                Inl e \<Rightarrow> Inl e
              | Inr aht21_temperature \<Rightarrow>
                  (case get_humidity (sensor_data s') of
                     Inl e \<Rightarrow> Inl e
                   | Inr aht21_humidity \<Rightarrow>
                       Inr (s', (Some aht21_temperature, Some aht21_humidity), w'))))
      else
        (case collect_data_for_median cfg hw (TEMP_AHT21 d) w of
           Inl e \<Rightarrow> Inl e
         | Inr (s', w') \<Rightarrow> Inr (s', loc, w')))"
| "sample_sensor cfg hw aht21_exists co2_exists (CO2_ENS160 d tc hc) loc w =
     (if aht21_exists then
        (case fst loc of
           None \<Rightarrow> Inl UnboundLocalError
         | Some aht21_temperature \<Rightarrow>
             (case snd loc of
                None \<Rightarrow> Inl UnboundLocalError
              | Some aht21_humidity \<Rightarrow>
                  (case collect_data_for_median cfg hw
                          (CO2_ENS160 d aht21_temperature aht21_humidity) w of
                     Inl e \<Rightarrow> Inl e
                   | Inr (s', w') \<Rightarrow> Inr (s', loc, w'))))
      else
        (case collect_data_for_median cfg hw (CO2_ENS160 d tc hc) w of
           Inl e \<Rightarrow> Inl e
         | Inr (s', w') \<Rightarrow> Inr (s', loc, w')))"
| "sample_sensor cfg hw aht21_exists co2_exists s loc w =
     (case collect_data_for_median cfg hw s w of
        Inl e \<Rightarrow> Inl e
      | Inr (s', w') \<Rightarrow> Inr (s', loc, w'))"

text \<open>The inner loop \<^verbatim>\<open>for sensor in self.__current_objects\<close> of one round.\<close>

fun sample_sensors ::
  "config \<Rightarrow> hardware \<Rightarrow> bool \<Rightarrow> bool \<Rightarrow> sensor list \<Rightarrow> int option \<times> int option \<Rightarrow> world
     \<Rightarrow> error + (sensor list \<times> (int option \<times> int option) \<times> world)" where
  "sample_sensors cfg hw ae ce [] loc w = Inr ([], loc, w)"
| "sample_sensors cfg hw ae ce (s # rest) loc w =
     (case sample_sensor cfg hw ae ce s loc w of
        Inl e \<Rightarrow> Inl e
      | Inr (s', loc', w') \<Rightarrow>
          (case sample_sensors cfg hw ae ce rest loc' w' of
             Inl e \<Rightarrow> Inl e
           | Inr (rest', loc'', w'') \<Rightarrow> Inr (s' # rest', loc'', w'')))"

text \<open>
  The outer loop \<^verbatim>\<open>for _ in range(config.NUM_READINGS)\<close>: one round over the
  sensors, then \<^verbatim>\<open>time.sleep(config.TIME_BETWEEN_READINGS)\<close>.
\<close>

fun sample_rounds ::
  "config \<Rightarrow> hardware \<Rightarrow> bool \<Rightarrow> bool \<Rightarrow> nat \<Rightarrow> sensor list \<Rightarrow> int option \<times> int option
     \<Rightarrow> world \<Rightarrow> error + (sensor list \<times> (int option \<times> int option) \<times> world)" where
  "sample_rounds cfg hw ae ce 0 objs loc w = Inr (objs, loc, w)"
| "sample_rounds cfg hw ae ce (Suc n) objs loc w =
     (case sample_sensors cfg hw ae ce objs loc w of
        Inl e \<Rightarrow> Inl e
      | Inr (objs', loc', w') \<Rightarrow> sample_rounds cfg hw ae ce n objs' loc' (sleep w'))"

definition gather_sensor_data ::
  "config \<Rightarrow> hardware \<Rightarrow> sensor list \<Rightarrow> world \<Rightarrow> error + (sensor list \<times> world)" where
  "gather_sensor_data cfg hw objs w =
     (case scan_objects cfg hw 0 objs (None, None) w of
        Inl e \<Rightarrow> Inl e
      | Inr ((aht21_index, co2_index), w1) \<Rightarrow>
          (case reorder aht21_index co2_index objs of
             Inl e \<Rightarrow> Inl e
           | Inr objs1 \<Rightarrow>
               (case sample_rounds cfg hw (aht21_index \<noteq> None) (co2_index \<noteq> None)
                       (NUM_READINGS cfg) objs1 (None, None) w1 of
                  Inl e \<Rightarrow> Inl e
                | Inr (objs2, loc, w2) \<Rightarrow> Inr (objs2, w2))))"

section \<open>The acquisition loop (Controller.get_data)\<close>

text \<open>
  The Snapshot \<^verbatim>\<open>sensor_data\<close> is a dictionary from class name to Reading. The loop over
  the sensors skips the camera, packages each sensor and, when the package is not None,
  stores it in the Snapshot and resets the sensor.
\<close>

type_synonym snapshot = "(string \<times> dict) list"

fun package_all ::
  "config \<Rightarrow> sensor list \<Rightarrow> snapshot \<Rightarrow> error + (sensor list \<times> snapshot)" where
  "package_all cfg [] sd = Inr ([], sd)"
| "package_all cfg (Camera # rest) sd =
     (case package_all cfg rest sd of
        Inl e \<Rightarrow> Inl e
      | Inr (rest', sd') \<Rightarrow> Inr (Camera # rest', sd'))"
| "package_all cfg (s # rest) sd =
     (case package cfg s of
        Inl e \<Rightarrow> Inl e
      | Inr (None, s') \<Rightarrow>
          (case package_all cfg rest sd of
             Inl e \<Rightarrow> Inl e
           | Inr (rest', sd') \<Rightarrow> Inr (s' # rest', sd'))
      | Inr (Some (name, reading), s') \<Rightarrow>
          (case package_all cfg rest (AList.update name reading sd) of
             Inl e \<Rightarrow> Inl e
           | Inr (rest', sd') \<Rightarrow> Inr (reset_sensor_data s' # rest', sd')))"

record controller =
  current_objects :: "sensor list"
  last_data :: "snapshot option"

text \<open>
  One iteration of \<^verbatim>\<open>while True\<close>, up to the computation of the delay. An exception
  leaves the loop and ends the task: there is no handler in \<^verbatim>\<open>get_data\<close>.
\<close>

definition get_data_cycle ::
  "config \<Rightarrow> hardware \<Rightarrow> controller \<Rightarrow> world \<Rightarrow> error + (controller \<times> world \<times> nat)" where
  "get_data_cycle cfg hw c w =
     (case gather_sensor_data cfg hw (current_objects c) w of
        Inl e \<Rightarrow> Inl e
      | Inr (objs1, w1) \<Rightarrow>
          (case package_all cfg objs1 [] of
             Inl e \<Rightarrow> Inl e
           | Inr (objs2, sd) \<Rightarrow>
               Inr (c\<lparr>current_objects := objs2, last_data := Some sd\<rparr>, tick w1,
                    calc_next_reading (now hw (ticks w1)))))"

text \<open>
  The loop never returns by itself; \<open>get_data n\<close> is the state after \<open>n\<close> iterations,
  each followed by \<^verbatim>\<open>asyncio.sleep(next_reading)\<close>, or the exception that ended it.
\<close>

fun get_data ::
  "nat \<Rightarrow> config \<Rightarrow> hardware \<Rightarrow> controller \<Rightarrow> world \<Rightarrow> error + (controller \<times> world)" where
  "get_data 0 cfg hw c w = Inr (c, w)"
| "get_data (Suc n) cfg hw c w =
     (case get_data_cycle cfg hw c w of
        Inl e \<Rightarrow> Inl e
      | Inr (c', w', next_reading) \<Rightarrow>
          get_data n cfg hw c' (w'\<lparr>waited := waited w' + next_reading\<rparr>))"

section \<open>Predicates and scenarios used by the properties\<close>

text \<open>
  \<open>accumulated k s\<close>: every attribute of the sensor holds a list of exactly \<open>k\<close> samples.
  \<open>plain_accumulated\<close> asks this of every sensor but the CO2 sensor, whose retry loop can
  leave a round without a sample.
\<close>

fun full_slot :: "nat \<Rightarrow> pyval \<Rightarrow> bool" where
  "full_slot k (PList xs) = (length xs = k)"
| "full_slot k (PInt v) = False"
| "full_slot k PNone = False"

definition accumulated :: "nat \<Rightarrow> sensor \<Rightarrow> bool" where
  "accumulated k s = list_all (\<lambda>(key, slot). full_slot k slot) (sensor_data s)"

fun plain_accumulated :: "nat \<Rightarrow> sensor \<Rightarrow> bool" where
  "plain_accumulated k (CO2_ENS160 d tc hc) = True"
| "plain_accumulated k s = accumulated k s"

text \<open>
  Observations on a list of sensors: the dictionary of its temperature/humidity sensor,
  the two compensation fields of its CO2 sensor, and whether it holds neither of the two.
\<close>

fun aht21_data :: "sensor list \<Rightarrow> dict option" where
  "aht21_data [] = None"
| "aht21_data (TEMP_AHT21 d # rest) = Some d"
| "aht21_data (s # rest) = aht21_data rest"

fun co2_compensation :: "sensor list \<Rightarrow> (int \<times> int) option" where
  "co2_compensation [] = None"
| "co2_compensation (CO2_ENS160 d tc hc # rest) = Some (tc, hc)"
| "co2_compensation (s # rest) = co2_compensation rest"

definition others :: "sensor list \<Rightarrow> bool" where
  "others xs =
     list_all (\<lambda>s. class_name s \<noteq> ''TEMP_AHT21'' \<and> class_name s \<noteq> ''CO2_ENS160'') xs"

text \<open>
  \<open>round_steps cfg hw objs loc w p q dT' t h\<close> describes one round of sampling that starts
  from the sensors \<open>objs\<close>, the local variables \<open>loc\<close> and the world \<open>w\<close>, with both
  sensors present. The temperature/humidity sensor is at position \<open>p\<close> and the CO2 sensor
  at the later position \<open>q\<close>; every other sensor is neither of the two. The round samples
  the sensors before \<open>p\<close>; then it calls \<^verbatim>\<open>collect_data_for_median\<close> on the
  temperature/humidity sensor, which leaves the dictionary \<open>dT'\<close>, on which
  \<^verbatim>\<open>get_temperature\<close> and \<^verbatim>\<open>get_humidity\<close> return \<open>t\<close> and \<open>h\<close>; then it samples the
  sensors between; then it calls \<^verbatim>\<open>collect_data_for_median\<close> on the CO2 sensor with its
  compensation fields set to \<open>t\<close> and \<open>h\<close>; then it samples the rest. Every access to
  the hardware made by the first call comes before every access made by the second.
\<close>

definition round_steps ::
  "config \<Rightarrow> hardware \<Rightarrow> sensor list \<Rightarrow> int option \<times> int option \<Rightarrow> world
     \<Rightarrow> nat \<Rightarrow> nat \<Rightarrow> dict \<Rightarrow> int \<Rightarrow> int \<Rightarrow> bool" where
  "round_steps cfg hw objs loc w p q dT' t h =
     (\<exists>pre dT mid dC tc hc post pre' wa wb mid' wc dC' wd post' w'.
        objs = pre @ TEMP_AHT21 dT # mid @ CO2_ENS160 dC tc hc # post
      \<and> length pre = p \<and> length (pre @ TEMP_AHT21 dT # mid) = q
      \<and> others pre \<and> others mid \<and> others post
      \<and> sample_sensors cfg hw True True pre loc w = Inr (pre', loc, wa)
      \<and> collect_data_for_median cfg hw (TEMP_AHT21 dT) wa = Inr (TEMP_AHT21 dT', wb)
      \<and> get_temperature dT' = Inr t \<and> get_humidity dT' = Inr h
      \<and> sample_sensors cfg hw True True mid (Some t, Some h) wb
          = Inr (mid', (Some t, Some h), wc)
      \<and> collect_data_for_median cfg hw (CO2_ENS160 dC t h) wc = Inr (CO2_ENS160 dC' t h, wd)
      \<and> sample_sensors cfg hw True True post (Some t, Some h) wd
          = Inr (post', (Some t, Some h), w')
      \<and> sample_sensors cfg hw True True objs loc w
          = Inr (pre' @ TEMP_AHT21 dT' # mid' @ CO2_ENS160 dC' t h # post', (Some t, Some h), w')
      \<and> ticks wb = ticks wa + length dT \<and> ticks wb \<le> ticks wc)"

text \<open>
  Scripted hardware: the \<open>t\<close>-th access reads the \<open>t\<close>-th number of the script, and
  \<open>dflt\<close> once the script is used up; the camera captures its image and the wall clock
  stands at 10:47:30.
\<close>

definition scripted :: "int list \<Rightarrow> int \<Rightarrow> hardware" where
  "scripted xs dflt =
     \<lparr>getattr = (\<lambda>t c key. Inr (if t < length xs then xs ! t else dflt)),
      capture_file = (\<lambda>t. Inr ''image.png''),
      now = (\<lambda>t. \<lparr>hour = 10, minute = 47, second = 30\<rparr>)\<rparr>"

definition world0 :: world where
  "world0 = \<lparr>ticks = 0, sleeps = 0, waited = 0\<rparr>"

text \<open>
  The sensors of \<^verbatim>\<open>main.py\<close>, in the order of its \<^verbatim>\<open>sensor_pin_map\<close>, as their
  constructors leave them. With these sensors the camera takes access 0, and in the
  first round the colour sensor reads at accesses 1 to 4, the infrared sensor at 5 and 6,
  the temperature/humidity sensor at 7 and 8, and the CO2 sensor from access 9 on.
\<close>

definition main_objects :: "sensor list" where
  "main_objects =
     [Camera, init_RGB_TCS34725, init_IR_MLX90614, init_TEMP_AHT21, init_CO2_ENS160]"

definition main_controller :: controller where
  "main_controller = \<lparr>current_objects = main_objects, last_data = None\<rparr>"

text \<open>
  \<open>stuck_aqi\<close>: every sensor reads 21 in the first round and 7 afterwards, but the five
  attempts on AQI in the first round all read 0. \<open>cold_start\<close>: the first temperature
  and humidity samples are 0. \<open>read_fault n e\<close>: access \<open>n\<close> to a sensor raises \<open>e\<close>.
\<close>

definition stuck_aqi :: hardware where
  "stuck_aqi = scripted (replicate 9 21 @ replicate 5 0) 7"

definition cold_start :: hardware where
  "cold_start = scripted (replicate 7 21 @ [0, 0]) 7"

definition read_fault :: "nat \<Rightarrow> error \<Rightarrow> hardware" where
  "read_fault n e =
     \<lparr>getattr = (\<lambda>t c key. if t = n then Inl e else Inr 7),
      capture_file = (\<lambda>t. Inr ''image.png''),
      now = (\<lambda>t. \<lparr>hour = 10, minute = 47, second = 30\<rparr>)\<rparr>"

section \<open>Properties\<close>

text \<open>
  C1. With a positive configured number of readings N, the median reduction of a list of
  exactly N values is the element at index N div 2 of the sorted list (the upper median
  for even N), and the reduction of a list of any other length is None, whatever the
  list holds.
\<close>

theorem find_median_data_median:
  assumes "0 < NUM_READINGS cfg"
  shows "(length xs = NUM_READINGS cfg \<longrightarrow>
            find_median_data cfg (PList xs) = Inr (PInt (sort xs ! (NUM_READINGS cfg div 2))))
       \<and> (length xs \<noteq> NUM_READINGS cfg \<longrightarrow> find_median_data cfg (PList xs) = Inr PNone)"
  using assms by auto

theorem find_median_data_median_witness:
  "0 < NUM_READINGS config_py
   \<and> find_median_data config_py (PList [3, 1, 2, 10, 9, 8, 7, 6, 5, 4]) = Inr (PInt 6)
   \<and> find_median_data config_py (PList [1, 2, 3, 4, 5, 6, 7, 8, 9]) = Inr PNone
   \<and> find_median_data config_py (PList [1, 2, 3, 4, 5, 6, 7, 8, 9, 10, 11]) = Inr PNone"
  using find_median_data_median [of config_py "[3, 1, 2, 10, 9, 8, 7, 6, 5, 4]"]
    find_median_data_median [of config_py "[1, 2, 3, 4, 5, 6, 7, 8, 9]"]
    find_median_data_median [of config_py "[1, 2, 3, 4, 5, 6, 7, 8, 9, 10, 11]"]
  by (simp add: config_py_def)

text \<open>
  C2. The claim is that the delay is the number of seconds left until the wall clock next
  reaches a multiple of the stagger interval. The code adds the seconds of the current
  minute where they should be subtracted: at 10:47:30 the delay is 810 seconds, which
  ends at 11:01:00, while the boundary 11:00:00 is 750 seconds away.
\<close>

theorem calc_next_reading_overshoots:
  "calc_next_reading \<lparr>hour = 10, minute = 47, second = 30\<rparr> = 810
   \<and> clock_after \<lparr>hour = 10, minute = 47, second = 30\<rparr> 810
       = \<lparr>hour = 11, minute = 1, second = 0\<rparr>
   \<and> \<not> on_stagger_boundary (clock_after \<lparr>hour = 10, minute = 47, second = 30\<rparr> 810)
   \<and> clock_after \<lparr>hour = 10, minute = 47, second = 30\<rparr> 750
       = \<lparr>hour = 11, minute = 0, second = 0\<rparr>
   \<and> on_stagger_boundary (clock_after \<lparr>hour = 10, minute = 47, second = 30\<rparr> 750)"
  by (simp add: calc_next_reading_def clock_after_def on_stagger_boundary_def
      seconds_of_day_def STAGGER_INTERVAL_def)

text \<open>
  In general the delay ends on a stagger boundary exactly when the cycle completes at
  second 0 of a minute.
\<close>

lemma next_multiple: "(m::nat) + (20 - m mod 20) = 20 * (m div 20 + 1)"
  by presburger

lemma calc_next_reading_boundary_iff:
  assumes "valid_time t"
  shows "on_stagger_boundary (clock_after t (calc_next_reading t)) \<longleftrightarrow> second t = 0"
proof -
  obtain h m s where t: "t = \<lparr>hour = h, minute = m, second = s\<rparr>" by (cases t) auto
  have b: "s < 60" using assms by (auto simp: valid_time_def t)
  define q where "q = m div 20 + 1"
  define x where "x = (2 * s) div 60"
  define T where "T = seconds_of_day t + calc_next_reading t"
  have x: "x < 20" using b by (simp add: x_def)
  have tot: "T = 60 * (60 * h + 20 * q) + 2 * s"
    using next_multiple [of m]
    by (simp add: T_def t q_def seconds_of_day_def calc_next_reading_def STAGGER_INTERVAL_def
        algebra_simps)
  have d: "T div 60 = 60 * h + 20 * q + x"
    unfolding x_def tot by (rule div_mult_self4) simp
  have md: "T mod 60 = (2 * s) mod 60"
    unfolding tot by (rule mod_mult_self4)
  have "(60 * h + 20 * q + x) mod 60 mod 20 = (60 * h + 20 * q + x) mod 20"
    by (rule mod_mod_cancel) simp
  also have "60 * h + 20 * q + x = 20 * (3 * h + q) + x" by simp
  also have "(20 * (3 * h + q) + x) mod 20 = x mod 20" by (rule mod_mult_self4)
  finally have mn: "T div 60 mod 60 mod 20 = x" using x by (simp add: d)
  have "60 * x + (2 * s) mod 60 = 2 * s"
    unfolding x_def by (rule mult_div_mod_eq)
  then have "(x = 0 \<and> (2 * s) mod 60 = 0) \<longleftrightarrow> s = 0"
    by (cases "s = 0") (auto simp add: x_def)
  moreover have "minute (clock_after t (calc_next_reading t)) = T div 60 mod 60"
    by (simp add: clock_after_def Let_def T_def)
  moreover have "second (clock_after t (calc_next_reading t)) = T mod 60"
    by (simp add: clock_after_def Let_def T_def)
  moreover have "second t = s" by (simp add: t)
  ultimately show ?thesis
    by (simp add: on_stagger_boundary_def STAGGER_INTERVAL_def mn md)
qed

subsection \<open>The retry loop of the CO2 sensor\<close>

lemma co2_attempts_all_zero:
  "\<forall>i<n. getattr hw (ticks w + i) ''CO2_ENS160'' key = Inr 0 \<Longrightarrow>
   co2_attempts hw n key slot w = Inr (slot, w\<lparr>ticks := ticks w + n, sleeps := sleeps w + n\<rparr>)"
proof (induction n arbitrary: w)
  case 0
  then show ?case by simp
next
  case (Suc n)
  have h0: "getattr hw (ticks w) ''CO2_ENS160'' key = Inr 0"
    using Suc.prems by (metis add.right_neutral zero_less_Suc)
  have "\<forall>i<n. getattr hw (ticks (sleep (tick w)) + i) ''CO2_ENS160'' key = Inr 0"
    using Suc.prems by (auto simp: sleep_def tick_def)
  from Suc.IH [OF this] show ?case
    by (simp add: h0 sleep_def tick_def)
qed

lemma co2_attempts_first_nonzero:
  "j < n \<Longrightarrow> \<forall>i<j. getattr hw (ticks w + i) ''CO2_ENS160'' key = Inr 0 \<Longrightarrow>
   getattr hw (ticks w + j) ''CO2_ENS160'' key = Inr v \<Longrightarrow> v \<noteq> 0 \<Longrightarrow>
   co2_attempts hw n key (PList xs) w
     = Inr (PList (xs @ [v]), w\<lparr>ticks := ticks w + j + 1, sleeps := sleeps w + j\<rparr>)"
proof (induction n arbitrary: w j)
  case 0
  then show ?case by simp
next
  case (Suc n)
  show ?case
  proof (cases j)
    case 0
    then show ?thesis using Suc.prems by (simp add: tick_def)
  next
    case (Suc j')
    have h0: "getattr hw (ticks w) ''CO2_ENS160'' key = Inr 0"
      using Suc.prems(2) Suc by (metis add.right_neutral zero_less_Suc)
    have a: "\<forall>i<j'. getattr hw (ticks (sleep (tick w)) + i) ''CO2_ENS160'' key = Inr 0"
      using Suc.prems(2) Suc by (auto simp: sleep_def tick_def)
    have b: "getattr hw (ticks (sleep (tick w)) + j') ''CO2_ENS160'' key = Inr v"
      using Suc.prems(3) Suc by (simp add: sleep_def tick_def)
    have c: "j' < n" using Suc.prems(1) Suc by simp
    from Suc.IH [OF c a b Suc.prems(4)] show ?thesis
      by (simp add: h0 sleep_def tick_def Suc)
  qed
qed

text \<open>
  C3, as amended. For every CO2 attribute, one sampling round reads the attribute up to
  CO2_ATTEMPTS times and sleeps after each reading of zero. If attempt \<open>j\<close> (counted from
  0, below the budget) is the first to read a non-zero value, that value is appended to
  the accumulator after \<open>j\<close> sleeps. If every attempt of the budget reads zero, the
  sensor gives up: nothing is appended and the accumulator is unchanged.
\<close>

theorem co2_attempts_retry:
  "(j < CO2_ATTEMPTS cfg
      \<and> (\<forall>i<j. getattr hw (ticks w + i) ''CO2_ENS160'' key = Inr 0)
      \<and> getattr hw (ticks w + j) ''CO2_ENS160'' key = Inr v \<and> v \<noteq> 0
    \<longrightarrow> co2_attempts hw (CO2_ATTEMPTS cfg) key (PList xs) w
          = Inr (PList (xs @ [v]), w\<lparr>ticks := ticks w + j + 1, sleeps := sleeps w + j\<rparr>))
   \<and> ((\<forall>i<CO2_ATTEMPTS cfg. getattr hw (ticks w + i) ''CO2_ENS160'' key = Inr 0)
    \<longrightarrow> co2_attempts hw (CO2_ATTEMPTS cfg) key (PList xs) w
          = Inr (PList xs, w\<lparr>ticks := ticks w + CO2_ATTEMPTS cfg,
                              sleeps := sleeps w + CO2_ATTEMPTS cfg\<rparr>))"
  using co2_attempts_first_nonzero [of j "CO2_ATTEMPTS cfg" hw w key v xs]
    co2_attempts_all_zero [of "CO2_ATTEMPTS cfg" hw w key "PList xs"]
  by blast

theorem co2_attempts_retry_witness:
  "co2_attempts (scripted [0, 0, 0, 7, 0] 0) (CO2_ATTEMPTS config_py) ''AQI'' (PList []) world0
     = Inr (PList [7], \<lparr>ticks = 4, sleeps = 3, waited = 0\<rparr>)
   \<and> co2_attempts (scripted [] 0) (CO2_ATTEMPTS config_py) ''AQI'' (PList []) world0
     = Inr (PList [], \<lparr>ticks = 5, sleeps = 5, waited = 0\<rparr>)"
proof -
  have a: "3 < CO2_ATTEMPTS config_py" by (simp add: config_py_def)
  have b: "\<forall>i<3. getattr (scripted [0, 0, 0, 7, 0] 0) (ticks world0 + i) ''CO2_ENS160'' ''AQI'' = Inr 0"
    by (auto simp: scripted_def world0_def less_Suc_eq eval_nat_numeral)
  have c: "getattr (scripted [0, 0, 0, 7, 0] 0) (ticks world0 + 3) ''CO2_ENS160'' ''AQI'' = Inr 7"
    by (simp add: scripted_def world0_def)
  have d: "\<forall>i<CO2_ATTEMPTS config_py.
             getattr (scripted [] 0) (ticks world0 + i) ''CO2_ENS160'' ''AQI'' = Inr 0"
    by (simp add: scripted_def)
  show ?thesis
    using co2_attempts_retry [of 3 config_py "scripted [0, 0, 0, 7, 0] 0" world0 "''AQI''" 7 "[]"]
      co2_attempts_retry [of 0 config_py "scripted [] 0" world0 "''AQI''" 7 "[]"] a b c d
    by (simp add: world0_def config_py_def)
qed

text \<open>
  C3 as stated fails: with hardware that reads zero on every attempt, one sampling round
  of a new CO2 sensor makes 15 reads and leaves every accumulator empty; no zero is
  accepted.
\<close>

theorem co2_gives_up_on_zeros:
  "collect_data_for_median config_py (scripted [] 0) init_CO2_ENS160 world0
     = Inr (CO2_ENS160 [(''AQI'', PList []), (''TVOC'', PList []), (''eCO2'', PList [])] 25 50,
            \<lparr>ticks = 15, sleeps = 15, waited = 0\<rparr>)"
  by (simp add: config_py_def scripted_def init_CO2_ENS160_def world0_def tick_def sleep_def
      eval_nat_numeral)

subsection \<open>Reduction and packaging\<close>

lemma find_median_data_no_RuntimeError: "find_median_data cfg v \<noteq> Inl RuntimeError"
  by (cases v) auto

lemma find_median_data_result:
  "find_median_data cfg slot = Inr v \<Longrightarrow> v = PNone \<or> (\<exists>n. v = PInt n)"
  by (cases slot) (auto split: if_splits)

lemma find_median_data_truthy:
  "find_median_data cfg slot = Inr v \<Longrightarrow> truthy v \<Longrightarrow>
   \<exists>xs. slot = PList xs \<and> length xs = NUM_READINGS cfg
        \<and> v = PInt (sort xs ! (NUM_READINGS cfg div 2))"
  by (cases slot) (auto split: if_splits)

lemma find_median_data_full:
  "0 < k \<Longrightarrow> full_slot k slot \<Longrightarrow> NUM_READINGS cfg = k \<Longrightarrow>
   \<exists>xs. slot = PList xs \<and> find_median_data cfg slot = Inr (PInt (sort xs ! (k div 2)))"
  by (cases slot) auto

lemma sensor_read_Inr:
  "sensor_read cfg d = Inr (ok, d') \<Longrightarrow>
   ok \<and> list_all2 (\<lambda>(key, slot) (key', v). key' = key \<and> find_median_data cfg slot = Inr v) d d'"
proof (induction d arbitrary: ok d')
  case Nil
  then show ?case by simp
next
  case (Cons p d)
  obtain key slot where p: "p = (key, slot)" by (cases p)
  from Cons.prems obtain v rest' where
    v: "find_median_data cfg slot = Inr v" and
    r: "sensor_read cfg d = Inr (ok, rest')" and d': "d' = (key, v) # rest'"
    using find_median_data_no_RuntimeError [of cfg slot]
    by (auto simp: p split: sum.splits if_splits prod.splits)
  from Cons.IH [OF r] v d' show ?case by (simp add: p)
qed

lemma sensor_read_total:
  "list_all2 (\<lambda>(key, slot) (key', v). key' = key \<and> find_median_data cfg slot = Inr v) d d'
   \<Longrightarrow> sensor_read cfg d = Inr (True, d')"
proof (induction d arbitrary: d')
  case Nil
  then show ?case by simp
next
  case (Cons p d)
  then show ?case by (cases d') (auto split: prod.splits)
qed

text \<open>
  C9. When \<^verbatim>\<open>package\<close> of the CO2 sensor returns at all (no exception), it returns a
  Reading exactly when every attribute reduces to a truthy value, that is a non-zero
  number; one attribute reducing to zero or to None makes it return None.
\<close>

theorem package_co2_only_truthy:
  assumes "package cfg (CO2_ENS160 d tc hc) = Inr (res, s')"
  shows "(res \<noteq> None)
         = (\<forall>(key, slot)\<in>set d. \<exists>v. find_median_data cfg slot = Inr v \<and> truthy v)"
proof -
  from assms obtain ok d' where r: "sensor_read cfg d = Inr (ok, d')"
    by (auto simp: package_co2_def split: sum.splits)
  from sensor_read_Inr [OF r] have ok: ok
    and rel: "list_all2 (\<lambda>(key, slot) (key', v). key' = key \<and> find_median_data cfg slot = Inr v) d d'"
    by auto
  have res: "(res \<noteq> None) = list_all (\<lambda>(key, v). truthy v) d'"
    using assms r ok by (auto simp: package_co2_def Let_def split: if_splits)
  have "list_all (\<lambda>(key, v). truthy v) d'
        = (\<forall>(key, slot)\<in>set d. \<exists>v. find_median_data cfg slot = Inr v \<and> truthy v)"
    using rel by (induction d d' rule: list_all2_induct) auto
  with res show ?thesis by simp
qed

theorem package_co2_only_truthy_witness:
  "package config_py
     (CO2_ENS160 [(''AQI'', PList [2, 2, 1, 2, 2, 3, 3, 3, 3, 3]),
                  (''TVOC'', PList [40, 41, 42, 43, 44, 45, 46, 47, 48, 49]),
                  (''eCO2'', PList [400, 400, 400, 400, 400, 500, 500, 500, 500, 500])] 25 50)
   = Inr (Some (''CO2_ENS160'',
                [(''AQI'', PInt 3), (''TVOC'', PInt 45), (''eCO2'', PInt 500),
                 (''Node'', PInt 69)]),
          CO2_ENS160 [(''AQI'', PInt 3), (''TVOC'', PInt 45), (''eCO2'', PInt 500),
                      (''Node'', PInt 69)] 25 50)
   \<and> package config_py
     (CO2_ENS160 [(''AQI'', PList [0, 0, 0, 0, 0, 0, 3, 3, 3, 3]),
                  (''TVOC'', PList [40, 41, 42, 43, 44, 45, 46, 47, 48, 49]),
                  (''eCO2'', PList [400, 400, 400, 400, 400, 500, 500, 500, 500, 500])] 25 50)
   = Inr (None, CO2_ENS160 [(''AQI'', PInt 0), (''TVOC'', PInt 45), (''eCO2'', PInt 500)] 25 50)
   \<and> package config_py
     (CO2_ENS160 [(''AQI'', PList [2, 2, 1, 2, 2, 3, 3, 3, 3, 3]),
                  (''TVOC'', PList [40, 41, 42, 43, 44, 45, 46, 47, 48]),
                  (''eCO2'', PList [400, 400, 400, 400, 400, 500, 500, 500, 500, 500])] 25 50)
   = Inr (None, CO2_ENS160 [(''AQI'', PInt 3), (''TVOC'', PNone), (''eCO2'', PInt 500)] 25 50)"
  (is "?A \<and> ?B \<and> ?C")
proof -
  have a: ?A by (simp add: package_co2_def config_py_def Let_def)
  have b: ?B by (simp add: package_co2_def config_py_def)
  have c: ?C by (simp add: package_co2_def config_py_def)
  show ?thesis
    using package_co2_only_truthy [OF a] package_co2_only_truthy [OF b]
      package_co2_only_truthy [OF c] a b c
    by simp
qed

subsection \<open>Invariants of sampling\<close>

lemma append_readings_full:
  "append_readings hw c d w = Inr (d', w') \<Longrightarrow>
   list_all (\<lambda>(key, slot). full_slot k slot) d \<Longrightarrow>
   list_all (\<lambda>(key, slot). full_slot (Suc k) slot) d'"
proof (induction d arbitrary: w d')
  case Nil
  then show ?case by simp
next
  case (Cons p d)
  obtain key slot where p: "p = (key, slot)" by (cases p)
  from Cons.prems(2) obtain xs where xs: "slot = PList xs" "length xs = k"
    by (cases slot) (auto simp: p)
  from Cons.prems(1) obtain v rest' where
    r: "append_readings hw c d (tick w) = Inr (rest', w')"
    and d': "d' = (key, PList (xs @ [v])) # rest'"
    by (auto simp: p xs split: sum.splits)
  from Cons.IH [OF r] Cons.prems(2) have "list_all (\<lambda>(key, slot). full_slot (Suc k) slot) rest'"
    by simp
  then show ?case by (simp add: d' xs)
qed

lemma collect_class_name:
  "collect_data_for_median cfg hw s w = Inr (s', w') \<Longrightarrow> class_name s' = class_name s"
  by (cases s) (auto split: sum.splits)

lemma collect_plain_accumulated:
  "collect_data_for_median cfg hw s w = Inr (s', w') \<Longrightarrow>
   plain_accumulated k s \<Longrightarrow> plain_accumulated (Suc k) s'"
  by (cases s) (auto simp: accumulated_def split: sum.splits dest: append_readings_full)

lemma sample_sensor_class_name:
  "sample_sensor cfg hw ae ce s loc w = Inr (s', loc', w') \<Longrightarrow> class_name s' = class_name s"
  by (cases s) (auto split: sum.splits if_splits option.splits dest: collect_class_name)

lemma sample_sensor_plain_accumulated:
  "sample_sensor cfg hw ae ce s loc w = Inr (s', loc', w') \<Longrightarrow>
   plain_accumulated k s \<Longrightarrow> plain_accumulated (Suc k) s'"
proof (cases s)
  case Camera
  assume "sample_sensor cfg hw ae ce s loc w = Inr (s', loc', w')"
  then show ?thesis using Camera by (auto simp: accumulated_def)
next
  case (TEMP_AHT21 d)
  assume a: "sample_sensor cfg hw ae ce s loc w = Inr (s', loc', w')" "plain_accumulated k s"
  then obtain w'' where c: "collect_data_for_median cfg hw s w = Inr (s', w'')"
    unfolding TEMP_AHT21 by (auto simp del: collect_data_for_median.simps split: sum.splits if_splits)
  from collect_plain_accumulated [OF c a(2)] show ?thesis .
next
  case (CO2_ENS160 d tc hc)
  assume a: "sample_sensor cfg hw ae ce s loc w = Inr (s', loc', w')"
  from sample_sensor_class_name [OF a] show ?thesis
    unfolding CO2_ENS160 by (cases s') auto
next
  case (RGB_TCS34725 d)
  assume a: "sample_sensor cfg hw ae ce s loc w = Inr (s', loc', w')" "plain_accumulated k s"
  then obtain w'' where c: "collect_data_for_median cfg hw s w = Inr (s', w'')"
    unfolding RGB_TCS34725 by (auto simp del: collect_data_for_median.simps split: sum.splits if_splits)
  from collect_plain_accumulated [OF c a(2)] show ?thesis .
next
  case (IR_MLX90614 d)
  assume a: "sample_sensor cfg hw ae ce s loc w = Inr (s', loc', w')" "plain_accumulated k s"
  then obtain w'' where c: "collect_data_for_median cfg hw s w = Inr (s', w'')"
    unfolding IR_MLX90614 by (auto simp del: collect_data_for_median.simps split: sum.splits if_splits)
  from collect_plain_accumulated [OF c a(2)] show ?thesis .
next
  case (UV_LTR390 d)
  assume a: "sample_sensor cfg hw ae ce s loc w = Inr (s', loc', w')" "plain_accumulated k s"
  then obtain w'' where c: "collect_data_for_median cfg hw s w = Inr (s', w'')"
    unfolding UV_LTR390 by (auto simp del: collect_data_for_median.simps split: sum.splits if_splits)
  from collect_plain_accumulated [OF c a(2)] show ?thesis .
qed

lemma sample_sensors_rel:
  "sample_sensors cfg hw ae ce objs loc w = Inr (objs', loc', w') \<Longrightarrow>
   list_all2 (\<lambda>s s'. class_name s' = class_name s
                \<and> (plain_accumulated k s \<longrightarrow> plain_accumulated (Suc k) s')) objs objs'"
proof (induction objs arbitrary: loc w objs')
  case Nil
  then show ?case by simp
next
  case (Cons s objs)
  from Cons.prems obtain s1 loc1 w1 rest' where
    s1: "sample_sensor cfg hw ae ce s loc w = Inr (s1, loc1, w1)"
    and r: "sample_sensors cfg hw ae ce objs loc1 w1 = Inr (rest', loc', w')"
    and o: "objs' = s1 # rest'"
    by (auto split: sum.splits)
  from Cons.IH [OF r] sample_sensor_class_name [OF s1] sample_sensor_plain_accumulated [OF s1]
  show ?case by (auto simp: o)
qed

lemma sample_rounds_rel:
  "sample_rounds cfg hw ae ce n objs loc w = Inr (objs', loc', w') \<Longrightarrow>
   list_all2 (\<lambda>s s'. class_name s' = class_name s
                \<and> (plain_accumulated k s \<longrightarrow> plain_accumulated (k + n) s')) objs objs'"
proof (induction n arbitrary: objs loc w k)
  case 0
  then show ?case by (simp add: list_all2_same)
next
  case (Suc n)
  from Suc.prems obtain objs1 loc1 w1 where
    s1: "sample_sensors cfg hw ae ce objs loc w = Inr (objs1, loc1, w1)"
    and r: "sample_rounds cfg hw ae ce n objs1 loc1 (sleep w1) = Inr (objs', loc', w')"
    by (auto split: sum.splits)
  from list_all2_trans [OF _ sample_sensors_rel [OF s1, of k] Suc.IH [OF r, of "Suc k"]]
  show ?case by simp
qed

lemma pop_append_perm:
  assumes "pop_append i xs = Inr ys"
  shows "set ys = set xs" "length ys = length xs"
    "distinct (map f ys) = distinct (map f xs)"
proof -
  from assms have i: "i < length xs" and ys: "ys = take i xs @ drop (Suc i) xs @ [xs ! i]"
    by (auto simp: pop_append_def split: if_splits)
  have xs: "xs = take i xs @ xs ! i # drop (Suc i) xs"
    using i by (rule id_take_nth_drop)
  define A where "A = take i xs"
  define B where "B = drop (Suc i) xs"
  define x where "x = xs ! i"
  have 1: "xs = A @ x # B" using xs by (simp add: A_def B_def x_def)
  have 2: "ys = A @ B @ [x]" using ys by (simp add: A_def B_def x_def)
  show "set ys = set xs" unfolding 1 2 by auto
  show "length ys = length xs" unfolding 1 2 by simp
  show "distinct (map f ys) = distinct (map f xs)" unfolding 1 2 by auto
qed

lemma reorder_cases:
  "reorder ai ci objs = Inr objs1 \<Longrightarrow> objs1 = objs \<or> (\<exists>c. pop_append c objs = Inr objs1)"
  unfolding reorder_def by (cases ai; cases ci) (simp_all split: if_splits, blast)

lemma reorder_perm:
  assumes "reorder ai ci objs = Inr objs1"
  shows "set objs1 = set objs \<and> length objs1 = length objs
      \<and> distinct (map f objs1) = distinct (map f objs)"
proof -
  from reorder_cases [OF assms] show ?thesis
  proof
    assume "objs1 = objs"
    then show ?thesis by simp
  next
    assume "\<exists>c. pop_append c objs = Inr objs1"
    then obtain c where 2: "pop_append c objs = Inr objs1" ..
    from pop_append_perm(1) [OF 2] pop_append_perm(2) [OF 2] pop_append_perm(3) [OF 2, of f]
    show ?thesis by blast
  qed
qed

lemma gather_invariant:
  assumes g: "gather_sensor_data cfg hw objs w = Inr (objs2, w2)"
    and d: "distinct (map class_name objs)"
    and f: "\<forall>s\<in>set objs. plain_accumulated 0 s"
  shows "distinct (map class_name objs2)"
    "\<forall>s\<in>set objs2. plain_accumulated (NUM_READINGS cfg) s"
    "length objs2 = length objs"
    "set (map class_name objs2) = set (map class_name objs)"
proof -
  from g obtain ai ci w1 objs1 loc where
    sc: "scan_objects cfg hw 0 objs (None, None) w = Inr ((ai, ci), w1)"
    and ro: "reorder ai ci objs = Inr objs1"
    and sr: "sample_rounds cfg hw (ai \<noteq> None) (ci \<noteq> None) (NUM_READINGS cfg) objs1
               (None, None) w1 = Inr (objs2, loc, w2)"
    by (auto simp: gather_sensor_data_def split: sum.splits prod.splits)
  note rel = sample_rounds_rel [OF sr, of 0]
  have cn: "map class_name objs2 = map class_name objs1"
    using rel by (induction objs1 objs2 rule: list_all2_induct) auto
  show "distinct (map class_name objs2)"
    using cn reorder_perm [OF ro, of class_name] d by simp
  show "length objs2 = length objs"
    using list_all2_lengthD [OF rel] reorder_perm [OF ro, of class_name] by simp
  show "set (map class_name objs2) = set (map class_name objs)"
    using cn reorder_perm [OF ro, of class_name] by simp
  show "\<forall>s\<in>set objs2. plain_accumulated (NUM_READINGS cfg) s"
  proof
    fix s' assume "s' \<in> set objs2"
    then obtain i where i: "i < length objs2" "objs2 ! i = s'"
      by (auto simp: in_set_conv_nth)
    with rel have "plain_accumulated 0 (objs1 ! i) \<longrightarrow> plain_accumulated (NUM_READINGS cfg) s'"
      by (auto simp: list_all2_conv_all_nth)
    moreover have "objs1 ! i \<in> set objs"
      using i list_all2_lengthD [OF rel] reorder_perm [OF ro, of class_name] by (metis nth_mem)
    ultimately show "plain_accumulated (NUM_READINGS cfg) s'" using f by blast
  qed
qed

subsection \<open>Packaging one sensor\<close>

lemma set_update_subset: "set (AList.update k v al) \<subseteq> insert (k, v) (set al)"
  by (induction al) auto

lemma length_update_le: "length (AList.update k v al) \<le> Suc (length al)"
  by (induction al) auto

lemma package_plain_Inr:
  assumes "package_plain cfg d = Inr (r, d')"
  shows "\<exists>d1. sensor_read cfg d = Inr (True, d1)
            \<and> r = Some (AList.update ''Node'' (PInt (NODE cfg)) d1)"
proof -
  from assms obtain ok d1 where r: "sensor_read cfg d = Inr (ok, d1)"
    by (auto simp: package_plain_def split: sum.splits)
  from sensor_read_Inr [OF r] have ok by simp
  with assms r show ?thesis by (auto simp: package_plain_def Let_def)
qed

lemma package_co2_Some:
  assumes "package_co2 cfg d = Inr (Some reading, d')"
  shows "\<exists>d1. sensor_read cfg d = Inr (True, d1) \<and> list_all (\<lambda>(key, v). truthy v) d1
            \<and> reading = AList.update ''Node'' (PInt (NODE cfg)) d1"
proof -
  from assms obtain ok d1 where r: "sensor_read cfg d = Inr (ok, d1)"
    by (auto simp: package_co2_def split: sum.splits)
  from sensor_read_Inr [OF r] have ok by simp
  with assms r show ?thesis by (auto simp: package_co2_def Let_def split: if_splits)
qed

lemma package_class_name:
  "package cfg s = Inr (r, s') \<Longrightarrow> class_name s' = class_name s"
  by (cases s) (auto split: sum.splits)

lemma package_name:
  "package cfg s = Inr (Some (name, reading), s') \<Longrightarrow> name = class_name s"
  by (cases s) (auto split: sum.splits)

lemma package_reset_plain:
  "package cfg s = Inr (r, s') \<Longrightarrow> plain_accumulated 0 (reset_sensor_data s')"
  by (cases s) (auto simp: accumulated_def split: sum.splits)

lemma package_plain_sensor_Some:
  "package cfg s = Inr (r, s') \<Longrightarrow> class_name s \<noteq> ''CO2_ENS160'' \<Longrightarrow> r \<noteq> None"
  by (cases s) (auto split: sum.splits dest: package_plain_Inr)

text \<open>The values of a reduced dictionary, when every entry was truthy or full.\<close>

lemma reduced_entries:
  assumes rel: "list_all2 (\<lambda>(key, slot) (key', v). key' = key \<and> find_median_data cfg slot = Inr v) d d1"
    and ok: "\<forall>(key, slot)\<in>set d. \<forall>v. find_median_data cfg slot = Inr v \<longrightarrow> Q slot v"
    and e: "(key, v) \<in> set d1"
  shows "\<exists>slot. (key, slot) \<in> set d \<and> find_median_data cfg slot = Inr v \<and> Q slot v"
  using rel ok e by (induction d d1 rule: list_all2_induct) auto

lemma truthy_full:
  assumes "list_all2 (\<lambda>(key, slot) (key', v). key' = key \<and> find_median_data cfg slot = Inr v) d d1"
    and "list_all (\<lambda>(key, v). truthy v) d1"
  shows "list_all (\<lambda>(key, slot). full_slot (NUM_READINGS cfg) slot) d"
  using assms
proof (induction d d1 rule: list_all2_induct)
  case Nil
  then show ?case by simp
next
  case (Cons p d q d1)
  obtain key slot where p: "p = (key, slot)" by (cases p)
  obtain key' v where q: "q = (key', v)" by (cases q)
  from Cons.hyps(1) Cons.prems have "find_median_data cfg slot = Inr v" "truthy v"
    by (auto simp: p q)
  from find_median_data_truthy [OF this] have "full_slot (NUM_READINGS cfg) slot" by auto
  with Cons show ?case by (simp add: p)
qed

lemma reading_entries:
  assumes rel: "list_all2 (\<lambda>(key, slot) (key', v). key' = key \<and> find_median_data cfg slot = Inr v) d d1"
    and full: "list_all (\<lambda>(key, slot). full_slot (NUM_READINGS cfg) slot) d"
    and pos: "0 < NUM_READINGS cfg"
    and e: "(key, v) \<in> set (AList.update ''Node'' (PInt (NODE cfg)) d1)"
  shows "(key = ''Node'' \<and> v = PInt (NODE cfg))
       \<or> (\<exists>xs. (key, PList xs) \<in> set d \<and> length xs = NUM_READINGS cfg
               \<and> v = PInt (sort xs ! (NUM_READINGS cfg div 2)))"
proof -
  from e set_update_subset [of "''Node''" "PInt (NODE cfg)" d1]
  consider "(key, v) = (''Node'', PInt (NODE cfg))" | "(key, v) \<in> set d1" by blast
  then show ?thesis
  proof cases
    case 1
    then show ?thesis by simp
  next
    case 2
    from reduced_entries [OF rel _ 2, of "\<lambda>slot v. True"]
    obtain slot where s: "(key, slot) \<in> set d" "find_median_data cfg slot = Inr v"
      by auto
    from full s(1) have fs: "full_slot (NUM_READINGS cfg) slot"
      by (auto simp: list_all_iff)
    from find_median_data_full [OF pos fs refl] obtain xs where
      xs: "slot = PList xs" "find_median_data cfg slot = Inr (PInt (sort xs ! (NUM_READINGS cfg div 2)))"
      by blast
    from fs xs(1) have "length xs = NUM_READINGS cfg" by simp
    moreover from xs(2) s(2) have "v = PInt (sort xs ! (NUM_READINGS cfg div 2))" by simp
    moreover from s(1) xs(1) have "(key, PList xs) \<in> set d" by simp
    ultimately show ?thesis by blast
  qed
qed

lemma package_complete:
  assumes p: "package cfg s = Inr (Some (name, reading), s')"
    and pl: "plain_accumulated (NUM_READINGS cfg) s"
    and pos: "0 < NUM_READINGS cfg"
  shows "accumulated (NUM_READINGS cfg) s
       \<and> (\<forall>(key, v)\<in>set reading.
            (key = ''Node'' \<and> v = PInt (NODE cfg))
          \<or> (\<exists>xs. (key, PList xs) \<in> set (sensor_data s) \<and> length xs = NUM_READINGS cfg
                  \<and> v = PInt (sort xs ! (NUM_READINGS cfg div 2))))"
proof -
  have "\<exists>d1. sensor_read cfg (sensor_data s) = Inr (True, d1)
            \<and> reading = AList.update ''Node'' (PInt (NODE cfg)) d1
            \<and> accumulated (NUM_READINGS cfg) s"
  proof (cases "class_name s = ''CO2_ENS160''")
    case True
    then obtain d tc hc where s: "s = CO2_ENS160 d tc hc" by (cases s) auto
    from p obtain d' where "package_co2 cfg d = Inr (Some reading, d')"
      by (auto simp: s split: sum.splits)
    from package_co2_Some [OF this] obtain d1 where
      d1: "sensor_read cfg d = Inr (True, d1)" "list_all (\<lambda>(key, v). truthy v) d1"
      "reading = AList.update ''Node'' (PInt (NODE cfg)) d1" by blast
    from sensor_read_Inr [OF d1(1)] truthy_full [of cfg d d1] d1(2)
    have "accumulated (NUM_READINGS cfg) s" by (simp add: accumulated_def s)
    with d1 show ?thesis by (auto simp: s)
  next
    case False
    then have acc: "accumulated (NUM_READINGS cfg) s" using pl by (cases s) auto
    from p False obtain d' where "package_plain cfg (sensor_data s) = Inr (Some reading, d')"
      by (cases s) (auto split: sum.splits)
    from package_plain_Inr [OF this] acc show ?thesis by auto
  qed
  then obtain d1 where d1: "sensor_read cfg (sensor_data s) = Inr (True, d1)"
    "reading = AList.update ''Node'' (PInt (NODE cfg)) d1" and acc: "accumulated (NUM_READINGS cfg) s"
    by blast
  from sensor_read_Inr [OF d1(1)]
  have rel: "list_all2 (\<lambda>(key, slot) (key', v). key' = key \<and> find_median_data cfg slot = Inr v)
               (sensor_data s) d1" by simp
  from acc have full: "list_all (\<lambda>(key, slot). full_slot (NUM_READINGS cfg) slot) (sensor_data s)"
    by (simp add: accumulated_def)
  show ?thesis
    using acc reading_entries [OF rel full pos] by (auto simp: d1(2))
qed

subsection \<open>Assembling the Snapshot\<close>

lemma package_all_Cons:
  "s \<noteq> Camera \<Longrightarrow>
   package_all cfg (s # rest) sd =
     (case package cfg s of
        Inl e \<Rightarrow> Inl e
      | Inr (None, s') \<Rightarrow>
          (case package_all cfg rest sd of
             Inl e \<Rightarrow> Inl e
           | Inr (rest', sd') \<Rightarrow> Inr (s' # rest', sd'))
      | Inr (Some (name, reading), s') \<Rightarrow>
          (case package_all cfg rest (AList.update name reading sd) of
             Inl e \<Rightarrow> Inl e
           | Inr (rest', sd') \<Rightarrow> Inr (reset_sensor_data s' # rest', sd')))"
  by (cases s) simp_all

lemma package_all_snapshot:
  "package_all cfg objs sd = Inr (objs', sd') \<Longrightarrow>
   (\<forall>e\<in>set sd'. e \<in> set sd
        \<or> (\<exists>s\<in>set objs. \<exists>s'. s \<noteq> Camera \<and> package cfg s = Inr (Some e, s')))
   \<and> length sd' \<le> length sd + length (filter (\<lambda>s. s \<noteq> Camera) objs)
   \<and> list_all2 (\<lambda>s s'. class_name s' = class_name s \<and> plain_accumulated 0 s') objs objs'"
proof (induction objs arbitrary: sd objs' sd')
  case Nil
  then show ?case by simp
next
  case (Cons s objs)
  show ?case
  proof (cases "s = Camera")
    case True
    with Cons.prems obtain rest' where
      r: "package_all cfg objs sd = Inr (rest', sd')" and o: "objs' = Camera # rest'"
      by (auto split: sum.splits)
    from Cons.IH [OF r] show ?thesis by (auto simp: True o accumulated_def)
  next
    case False
    note eq = package_all_Cons [OF False, of cfg objs sd]
    from Cons.prems obtain r s1 where p: "package cfg s = Inr (r, s1)"
      unfolding eq by (auto split: sum.splits)
    show ?thesis
    proof (cases r)
      case None
      with Cons.prems p obtain rest' where
        r: "package_all cfg objs sd = Inr (rest', sd')" and o: "objs' = s1 # rest'"
        unfolding eq by (auto split: sum.splits)
      from package_plain_sensor_Some [OF p] None have co2: "class_name s = ''CO2_ENS160''"
        by blast
      from package_class_name [OF p] co2 have "plain_accumulated 0 s1" by (cases s1) auto
      with Cons.IH [OF r] package_class_name [OF p] show ?thesis by (auto simp: o False)
    next
      case (Some e)
      obtain name reading where e: "e = (name, reading)" by (cases e)
      from Cons.prems p Some e obtain rest' where
        r: "package_all cfg objs (AList.update name reading sd) = Inr (rest', sd')"
        and o: "objs' = reset_sensor_data s1 # rest'"
        unfolding eq by (auto split: sum.splits)
      have cn: "class_name (reset_sensor_data s1) = class_name s"
        using package_class_name [OF p] by (cases s1) auto
      note ih = Cons.IH [OF r]
      have 1: "\<forall>x\<in>set sd'. x \<in> set sd
          \<or> (\<exists>t\<in>set (s # objs). \<exists>t'. t \<noteq> Camera \<and> package cfg t = Inr (Some x, t'))"
      proof
        fix x assume "x \<in> set sd'"
        with ih consider "x \<in> set (AList.update name reading sd)"
          | "\<exists>t\<in>set objs. \<exists>t'. t \<noteq> Camera \<and> package cfg t = Inr (Some x, t')" by blast
        then show "x \<in> set sd
          \<or> (\<exists>t\<in>set (s # objs). \<exists>t'. t \<noteq> Camera \<and> package cfg t = Inr (Some x, t'))"
        proof cases
          case 1
          with set_update_subset [of name reading sd] have "x = e \<or> x \<in> set sd"
            by (auto simp: e)
          with p Some False show ?thesis by auto
        next
          case 2
          then show ?thesis by auto
        qed
      qed
      have 2: "length sd' \<le> length sd + length (filter (\<lambda>s. s \<noteq> Camera) (s # objs))"
        using ih length_update_le [of name reading sd] False by simp
      from ih cn package_reset_plain [OF p] 1 2 show ?thesis
        by (simp add: o)
    qed
  qed
qed

subsection \<open>One cycle\<close>

lemma not_Camera_iff: "s \<noteq> Camera \<longleftrightarrow> class_name s \<noteq> ''Camera''"
  by (cases s) auto

lemma count_sensors:
  assumes "distinct (map class_name xs)" "distinct (map class_name ys)"
    "set (map class_name xs) = set (map class_name ys)"
  shows "length (filter (\<lambda>s. s \<noteq> Camera) xs) = length (filter (\<lambda>s. s \<noteq> Camera) ys)"
proof -
  have "length (filter (\<lambda>s. s \<noteq> Camera) zs)
        = card (set (map class_name zs) - {''Camera''})"
    if "distinct (map class_name zs)" for zs
  proof -
    have "length (filter (\<lambda>s. s \<noteq> Camera) zs)
          = length (filter (\<lambda>n. n \<noteq> ''Camera'') (map class_name zs))"
      by (simp add: filter_map o_def not_Camera_iff)
    also have "\<dots> = card (set (filter (\<lambda>n. n \<noteq> ''Camera'') (map class_name zs)))"
      by (rule distinct_card [symmetric]) (use that in simp)
    also have "set (filter (\<lambda>n. n \<noteq> ''Camera'') (map class_name zs))
               = set (map class_name zs) - {''Camera''}" by auto
    finally show ?thesis .
  qed
  with assms show ?thesis by simp
qed

lemma cycle_snapshot:
  assumes d: "distinct (map class_name objs)"
    and f: "\<forall>s\<in>set objs. plain_accumulated 0 s"
    and pos: "0 < NUM_READINGS cfg"
    and g: "gather_sensor_data cfg hw objs w = Inr (objs1, w1)"
    and p: "package_all cfg objs1 [] = Inr (objs2, sd)"
  shows "(\<forall>s\<in>set objs1. s \<noteq> Camera \<and> \<not> accumulated (NUM_READINGS cfg) s
             \<longrightarrow> class_name s \<notin> fst ` set sd)
       \<and> (\<forall>(name, reading)\<in>set sd. \<exists>s\<in>set objs1.
             s \<noteq> Camera \<and> class_name s = name \<and> accumulated (NUM_READINGS cfg) s
           \<and> (\<forall>(key, v)\<in>set reading.
                 (key = ''Node'' \<and> v = PInt (NODE cfg))
               \<or> (\<exists>xs. (key, PList xs) \<in> set (sensor_data s)
                       \<and> length xs = NUM_READINGS cfg
                       \<and> v = PInt (sort xs ! (NUM_READINGS cfg div 2)))))
       \<and> length sd \<le> length (filter (\<lambda>s. s \<noteq> Camera) objs)"
    and "distinct (map class_name objs2)"
    and "\<forall>s\<in>set objs2. plain_accumulated 0 s"
    and "set (map class_name objs2) = set (map class_name objs)"
proof -
  note gi = gather_invariant [OF g d f]
  from package_all_snapshot [OF p] have
    src: "\<forall>e\<in>set sd. \<exists>s\<in>set objs1. \<exists>s'. s \<noteq> Camera \<and> package cfg s = Inr (Some e, s')"
    and len: "length sd \<le> length (filter (\<lambda>s. s \<noteq> Camera) objs1)"
    and rel: "list_all2 (\<lambda>s s'. class_name s' = class_name s \<and> plain_accumulated 0 s') objs1 objs2"
    by auto
  have cn: "map class_name objs2 = map class_name objs1"
    using rel by (induction objs1 objs2 rule: list_all2_induct) auto
  show "distinct (map class_name objs2)" using cn gi(1) by simp
  show "set (map class_name objs2) = set (map class_name objs)" using cn gi(4) by simp
  show "\<forall>s\<in>set objs2. plain_accumulated 0 s"
    using rel by (induction objs1 objs2 rule: list_all2_induct) auto
  have two: "\<forall>(name, reading)\<in>set sd. \<exists>s\<in>set objs1.
             s \<noteq> Camera \<and> class_name s = name \<and> accumulated (NUM_READINGS cfg) s
           \<and> (\<forall>(key, v)\<in>set reading.
                 (key = ''Node'' \<and> v = PInt (NODE cfg))
               \<or> (\<exists>xs. (key, PList xs) \<in> set (sensor_data s)
                       \<and> length xs = NUM_READINGS cfg
                       \<and> v = PInt (sort xs ! (NUM_READINGS cfg div 2))))"
  proof (clarify)
    fix name reading assume "(name, reading) \<in> set sd"
    with src obtain s s' where s: "s \<in> set objs1" "s \<noteq> Camera"
      "package cfg s = Inr (Some (name, reading), s')" by blast
    from gi(2) s(1) have pl: "plain_accumulated (NUM_READINGS cfg) s" by blast
    from package_complete [OF s(3) pl pos] package_name [OF s(3)] s(1,2)
    show "\<exists>s\<in>set objs1.
             s \<noteq> Camera \<and> class_name s = name \<and> accumulated (NUM_READINGS cfg) s
           \<and> (\<forall>(key, v)\<in>set reading.
                 (key = ''Node'' \<and> v = PInt (NODE cfg))
               \<or> (\<exists>xs. (key, PList xs) \<in> set (sensor_data s)
                       \<and> length xs = NUM_READINGS cfg
                       \<and> v = PInt (sort xs ! (NUM_READINGS cfg div 2))))"
      by blast
  qed
  have one: "\<forall>s\<in>set objs1. s \<noteq> Camera \<and> \<not> accumulated (NUM_READINGS cfg) s
             \<longrightarrow> class_name s \<notin> fst ` set sd"
  proof (intro ballI impI notI)
    fix s assume s: "s \<in> set objs1" "s \<noteq> Camera \<and> \<not> accumulated (NUM_READINGS cfg) s"
      and "class_name s \<in> fst ` set sd"
    then obtain reading where "(class_name s, reading) \<in> set sd" by force
    with two obtain t where t: "t \<in> set objs1" "class_name t = class_name s"
      "accumulated (NUM_READINGS cfg) t" by fastforce
    from gi(1) have "inj_on class_name (set objs1)" by (simp add: distinct_map)
    with s(1) t(1,2) have "t = s" by (auto dest: inj_onD)
    with t(3) s(2) show False by simp
  qed
  have "length (filter (\<lambda>s. s \<noteq> Camera) objs1) = length (filter (\<lambda>s. s \<noteq> Camera) objs)"
    using count_sensors [OF gi(1) d gi(4)] .
  with len one two
  show "(\<forall>s\<in>set objs1. s \<noteq> Camera \<and> \<not> accumulated (NUM_READINGS cfg) s
             \<longrightarrow> class_name s \<notin> fst ` set sd)
       \<and> (\<forall>(name, reading)\<in>set sd. \<exists>s\<in>set objs1.
             s \<noteq> Camera \<and> class_name s = name \<and> accumulated (NUM_READINGS cfg) s
           \<and> (\<forall>(key, v)\<in>set reading.
                 (key = ''Node'' \<and> v = PInt (NODE cfg))
               \<or> (\<exists>xs. (key, PList xs) \<in> set (sensor_data s)
                       \<and> length xs = NUM_READINGS cfg
                       \<and> v = PInt (sort xs ! (NUM_READINGS cfg div 2)))))
       \<and> length sd \<le> length (filter (\<lambda>s. s \<noteq> Camera) objs)"
    by simp
qed

subsection \<open>The Snapshot of every cycle\<close>

lemma reset_plain_accumulated: "reset_sensor_data s = s \<Longrightarrow> plain_accumulated 0 s"
  by (cases s) (auto simp: accumulated_def)

lemma get_data_cycle_Inr:
  assumes "get_data_cycle cfg hw c w = Inr (c', w', nr)"
  shows "\<exists>objs1 w1 sd. gather_sensor_data cfg hw (current_objects c) w = Inr (objs1, w1)
           \<and> package_all cfg objs1 [] = Inr (current_objects c', sd)
           \<and> last_data c' = Some sd"
  using assms by (auto simp: get_data_cycle_def split: sum.splits)

lemma get_data_invariant:
  "get_data k cfg hw c w = Inr (c', w') \<Longrightarrow>
   distinct (map class_name (current_objects c)) \<Longrightarrow>
   \<forall>s\<in>set (current_objects c). plain_accumulated 0 s \<Longrightarrow>
   0 < NUM_READINGS cfg \<Longrightarrow>
   distinct (map class_name (current_objects c'))
   \<and> (\<forall>s\<in>set (current_objects c'). plain_accumulated 0 s)
   \<and> set (map class_name (current_objects c')) = set (map class_name (current_objects c))"
proof (induction k arbitrary: c w)
  case 0
  then show ?case by simp
next
  case (Suc k)
  from Suc.prems(1) obtain c1 w1 nr where
    cy: "get_data_cycle cfg hw c w = Inr (c1, w1, nr)"
    and r: "get_data k cfg hw c1 (w1\<lparr>waited := waited w1 + nr\<rparr>) = Inr (c', w')"
    by (auto split: sum.splits)
  from get_data_cycle_Inr [OF cy] obtain objs1 wg sd where
    g: "gather_sensor_data cfg hw (current_objects c) w = Inr (objs1, wg)"
    and p: "package_all cfg objs1 [] = Inr (current_objects c1, sd)" by blast
  note cs = cycle_snapshot(2-4) [OF Suc.prems(2) Suc.prems(3) Suc.prems(4) g p]
  from Suc.IH [OF r cs(1) cs(2) Suc.prems(4)] cs(3) show ?case by simp
qed

text \<open>
  C4. Take a controller whose sensors are of distinct classes and as their constructors
  left them, a positive number of readings N, and any number of completed iterations of
  the acquisition loop. In the next cycle, with the sensors \<open>objs1\<close> as sampling left them
  (the state at reduction time) and \<open>sd\<close> the Snapshot assembled from them:
  a sensor one of whose accumulators does not hold exactly N samples has no entry in the
  Snapshot; every Reading in the Snapshot belongs to a sensor all of whose accumulators
  hold exactly N samples, and each of its values is the node identifier or the median of
  such an accumulator; the Snapshot has at most as many entries as there are sensors
  other than the camera; and this Snapshot is what the cycle publishes as \<open>last_data\<close>.
\<close>

theorem snapshot_only_complete_readings:
  assumes "distinct (map class_name objs0)"
    and "\<forall>s\<in>set objs0. reset_sensor_data s = s"
    and "0 < NUM_READINGS cfg"
    and "get_data k cfg hw \<lparr>current_objects = objs0, last_data = ld\<rparr> w0 = Inr (c, w)"
    and "gather_sensor_data cfg hw (current_objects c) w = Inr (objs1, w1)"
    and "package_all cfg objs1 [] = Inr (objs2, sd)"
  shows "(\<forall>s\<in>set objs1. s \<noteq> Camera \<and> \<not> accumulated (NUM_READINGS cfg) s
             \<longrightarrow> class_name s \<notin> fst ` set sd)
       \<and> (\<forall>(name, reading)\<in>set sd. \<exists>s\<in>set objs1.
             s \<noteq> Camera \<and> class_name s = name \<and> accumulated (NUM_READINGS cfg) s
           \<and> (\<forall>(key, v)\<in>set reading.
                 (key = ''Node'' \<and> v = PInt (NODE cfg))
               \<or> (\<exists>xs. (key, PList xs) \<in> set (sensor_data s)
                       \<and> length xs = NUM_READINGS cfg
                       \<and> v = PInt (sort xs ! (NUM_READINGS cfg div 2)))))
       \<and> length sd \<le> length (filter (\<lambda>s. s \<noteq> Camera) objs0)
       \<and> (\<exists>w' nr. get_data_cycle cfg hw c w
             = Inr (c\<lparr>current_objects := objs2, last_data := Some sd\<rparr>, w', nr))"
proof -
  have f: "\<forall>s\<in>set objs0. plain_accumulated 0 s"
    using assms(2) reset_plain_accumulated by blast
  from get_data_invariant [OF assms(4)] assms(1) f assms(3)
  have inv: "distinct (map class_name (current_objects c))"
    "\<forall>s\<in>set (current_objects c). plain_accumulated 0 s"
    "set (map class_name (current_objects c)) = set (map class_name objs0)"
    by simp_all
  have n: "length (filter (\<lambda>s. s \<noteq> Camera) (current_objects c))
         = length (filter (\<lambda>s. s \<noteq> Camera) objs0)"
    using count_sensors [OF inv(1) assms(1) inv(3)] .
  have cyc: "\<exists>w' nr. get_data_cycle cfg hw c w
             = Inr (c\<lparr>current_objects := objs2, last_data := Some sd\<rparr>, w', nr)"
    using assms(5,6) by (simp add: get_data_cycle_def)
  from cycle_snapshot(1) [OF inv(1) inv(2) assms(3) assms(5) assms(6)] n cyc
  show ?thesis by simp
qed

theorem snapshot_only_complete_readings_witness:
  "get_data_cycle config_py stuck_aqi main_controller world0
   = Inr (\<lparr>current_objects =
            [Camera, init_RGB_TCS34725, init_IR_MLX90614, init_TEMP_AHT21,
             CO2_ENS160 [(''AQI'', PNone), (''TVOC'', PInt 7), (''eCO2'', PInt 7)] 21 21],
          last_data = Some
            [(''RGB_TCS34725'',
              [(''color'', PInt 7), (''color_temperature'', PInt 7), (''lux'', PInt 7),
               (''color_rgb_bytes'', PInt 7), (''Node'', PInt 69)]),
             (''IR_MLX90614'',
              [(''ambient_temperature'', PInt 7), (''object_temperature'', PInt 7),
               (''Node'', PInt 69)]),
             (''TEMP_AHT21'',
              [(''temperature'', PInt 7), (''relative_humidity'', PInt 7),
               (''Node'', PInt 69)])]\<rparr>,
          \<lparr>ticks = 116, sleeps = 15, waited = 0\<rparr>, 810)"
proof -
  define G where "G = [Camera,
       RGB_TCS34725
        [(''color'', PList [21, 7, 7, 7, 7, 7, 7, 7, 7, 7]),
         (''color_temperature'', PList [21, 7, 7, 7, 7, 7, 7, 7, 7, 7]),
         (''lux'', PList [21, 7, 7, 7, 7, 7, 7, 7, 7, 7]),
         (''color_rgb_bytes'', PList [21, 7, 7, 7, 7, 7, 7, 7, 7, 7])],
       IR_MLX90614
        [(''ambient_temperature'', PList [21, 7, 7, 7, 7, 7, 7, 7, 7, 7]),
         (''object_temperature'', PList [21, 7, 7, 7, 7, 7, 7, 7, 7, 7])],
       TEMP_AHT21
        [(''temperature'', PList [21, 7, 7, 7, 7, 7, 7, 7, 7, 7]),
         (''relative_humidity'', PList [21, 7, 7, 7, 7, 7, 7, 7, 7, 7])],
       CO2_ENS160
        [(''AQI'', PList [7, 7, 7, 7, 7, 7, 7, 7, 7]),
         (''TVOC'', PList [7, 7, 7, 7, 7, 7, 7, 7, 7, 7]),
         (''eCO2'', PList [7, 7, 7, 7, 7, 7, 7, 7, 7, 7])] 21 21]"
  define G2 where "G2 = [Camera, init_RGB_TCS34725, init_IR_MLX90614, init_TEMP_AHT21,
       CO2_ENS160 [(''AQI'', PNone), (''TVOC'', PInt 7), (''eCO2'', PInt 7)] 21 21]"
  define SD where "SD = [(''RGB_TCS34725'',
              [(''color'', PInt 7), (''color_temperature'', PInt 7), (''lux'', PInt 7),
               (''color_rgb_bytes'', PInt 7), (''Node'', PInt 69)]),
             (''IR_MLX90614'',
              [(''ambient_temperature'', PInt 7), (''object_temperature'', PInt 7),
               (''Node'', PInt 69)]),
             (''TEMP_AHT21'',
              [(''temperature'', PInt 7), (''relative_humidity'', PInt 7),
               (''Node'', PInt 69)])]"
  have h1: "distinct (map class_name main_objects)" by code_simp
  have h2: "\<forall>s\<in>set main_objects. reset_sensor_data s = s"
    by (simp add: main_objects_def init_RGB_TCS34725_def init_IR_MLX90614_def
        init_TEMP_AHT21_def init_CO2_ENS160_def)
  have h3: "0 < NUM_READINGS config_py" by (simp add: config_py_def)
  have h4: "get_data 0 config_py stuck_aqi \<lparr>current_objects = main_objects, last_data = None\<rparr>
              world0 = Inr (main_controller, world0)"
    by (simp add: main_controller_def)
  have g: "gather_sensor_data config_py stuck_aqi (current_objects main_controller) world0
           = Inr (G, \<lparr>ticks = 115, sleeps = 15, waited = 0\<rparr>)"
    unfolding G_def by code_simp
  have p: "package_all config_py G [] = Inr (G2, SD)"
    unfolding G_def G2_def SD_def by code_simp
  have e: "get_data_cycle config_py stuck_aqi main_controller world0
           = Inr (main_controller\<lparr>current_objects := G2, last_data := Some SD\<rparr>,
                  \<lparr>ticks = 116, sleeps = 15, waited = 0\<rparr>, 810)"
    unfolding G2_def SD_def by code_simp
  from snapshot_only_complete_readings [OF h1 h2 h3 h4 g p]
  have "\<exists>w' nr. get_data_cycle config_py stuck_aqi main_controller world0
             = Inr (main_controller\<lparr>current_objects := G2, last_data := Some SD\<rparr>, w', nr)"
    by blast
  with e show ?thesis
    by (simp add: G2_def SD_def main_controller_def)
qed

subsection \<open>Faults in sampling, and the reset after a cycle\<close>

lemma capture_RuntimeError_caught:
  "capture_file hw (ticks w) = Inl RuntimeError \<Longrightarrow> capture_image hw w = Inr (None, tick w)"
  by (simp add: capture_image_def)

lemma get_data_propagates:
  "get_data_cycle cfg hw c w = Inl e \<Longrightarrow> get_data (Suc k) cfg hw c w = Inl e"
  by simp

lemma append_readings_propagates:
  "getattr hw (ticks w) c key = Inl e \<Longrightarrow>
   append_readings hw c ((key, PList xs) # rest) w = Inl e"
  by simp

text \<open>
  C7. The claim is that a fault inside sensor sampling is caught where it arises and the
  cycle goes on to publish the other sensors' Readings. Sampling has no handler: with the
  sensors of \<^verbatim>\<open>main.py\<close>, a RuntimeError raised by the first read of the temperature (access
  7) leaves \<^verbatim>\<open>_gather_sensor_data\<close> and \<^verbatim>\<open>get_data\<close>; the cycle publishes nothing and the
  acquisition loop ends with the exception.
\<close>

theorem sampling_fault_ends_loop:
  "getattr (read_fault 7 RuntimeError) 7 ''TEMP_AHT21'' ''temperature'' = Inl RuntimeError
   \<and> gather_sensor_data config_py (read_fault 7 RuntimeError) main_objects world0
       = Inl RuntimeError
   \<and> get_data_cycle config_py (read_fault 7 RuntimeError) main_controller world0
       = Inl RuntimeError
   \<and> get_data 1 config_py (read_fault 7 RuntimeError) main_controller world0
       = Inl RuntimeError"
  by code_simp

text \<open>
  C8. The claim is that every sensor is reset after the Snapshot is assembled. The reset
  is under the test \<^verbatim>\<open>data is not None\<close>: a sensor whose package is None keeps the
  reduced values in its dictionary. With the sensors of \<^verbatim>\<open>main.py\<close> and five zero
  readings of AQI in the first round, the first cycle ends with the CO2 sensor holding
  None and two numbers where empty lists should be, and the second cycle raises
  AttributeError at the first \<^verbatim>\<open>append\<close> on them, which ends the acquisition loop.
\<close>

theorem co2_not_reset_after_failed_package:
  "get_data 1 config_py stuck_aqi main_controller world0
   = Inr (\<lparr>current_objects =
            [Camera, init_RGB_TCS34725, init_IR_MLX90614, init_TEMP_AHT21,
             CO2_ENS160 [(''AQI'', PNone), (''TVOC'', PInt 7), (''eCO2'', PInt 7)] 21 21],
          last_data = Some
            [(''RGB_TCS34725'',
              [(''color'', PInt 7), (''color_temperature'', PInt 7), (''lux'', PInt 7),
               (''color_rgb_bytes'', PInt 7), (''Node'', PInt 69)]),
             (''IR_MLX90614'',
              [(''ambient_temperature'', PInt 7), (''object_temperature'', PInt 7),
               (''Node'', PInt 69)]),
             (''TEMP_AHT21'',
              [(''temperature'', PInt 7), (''relative_humidity'', PInt 7),
               (''Node'', PInt 69)])]\<rparr>,
          \<lparr>ticks = 116, sleeps = 15, waited = 810\<rparr>)
   \<and> CO2_ENS160 [(''AQI'', PNone), (''TVOC'', PInt 7), (''eCO2'', PInt 7)] 21 21
       \<noteq> reset_sensor_data
           (CO2_ENS160 [(''AQI'', PNone), (''TVOC'', PInt 7), (''eCO2'', PInt 7)] 21 21)
   \<and> get_data 2 config_py stuck_aqi main_controller world0 = Inl AttributeError"
  by code_simp

subsection \<open>The order of sampling\<close>

lemma scan_objects_step:
  assumes "scan_objects cfg hw i (s # rest) (ai, ci) w = Inr (r, w')"
  shows "\<exists>w1. scan_objects cfg hw (Suc i) rest
            (if class_name s = ''TEMP_AHT21'' then Some i else ai,
             if class_name s = ''CO2_ENS160'' then Some i else ci) w1 = Inr (r, w')"
  using assms by (cases s) (auto split: sum.splits if_splits)

lemma scan_objects_indices:
  "scan_objects cfg hw i objs (ai, ci) w = Inr ((ai', ci'), w') \<Longrightarrow>
   distinct (map class_name objs) \<Longrightarrow>
   (\<forall>a<length objs. class_name (objs ! a) = ''TEMP_AHT21'' \<longrightarrow> ai' = Some (i + a))
   \<and> ((\<forall>s\<in>set objs. class_name s \<noteq> ''TEMP_AHT21'') \<longrightarrow> ai' = ai)
   \<and> (\<forall>c<length objs. class_name (objs ! c) = ''CO2_ENS160'' \<longrightarrow> ci' = Some (i + c))
   \<and> ((\<forall>s\<in>set objs. class_name s \<noteq> ''CO2_ENS160'') \<longrightarrow> ci' = ci)"
proof (induction objs arbitrary: i ai ci w)
  case Nil
  then show ?case by simp
next
  case (Cons s rest)
  define ai1 where "ai1 = (if class_name s = ''TEMP_AHT21'' then Some i else ai)"
  define ci1 where "ci1 = (if class_name s = ''CO2_ENS160'' then Some i else ci)"
  from scan_objects_step [OF Cons.prems(1)] obtain w1 where
    r: "scan_objects cfg hw (Suc i) rest (ai1, ci1) w1 = Inr ((ai', ci'), w')"
    unfolding ai1_def ci1_def by blast
  from Cons.prems(2) have d: "distinct (map class_name rest)" by simp
  from Cons.prems(2) have "class_name s \<notin> class_name ` set rest" by simp
  then have ns: "\<forall>t\<in>set rest. class_name t \<noteq> class_name s" by (metis imageI)
  note ih = Cons.IH [OF r d]
  have "ai' = Some (i + a)" if "a < length (s # rest)" "class_name ((s # rest) ! a) = ''TEMP_AHT21''" for a
  proof (cases a)
    case 0
    with that have "class_name s = ''TEMP_AHT21''" by simp
    with ns ih show ?thesis by (simp add: 0 ai1_def)
  next
    case (Suc a')
    with that ih show ?thesis by simp
  qed
  moreover have "ci' = Some (i + c)" if "c < length (s # rest)" "class_name ((s # rest) ! c) = ''CO2_ENS160''" for c
  proof (cases c)
    case 0
    with that have "class_name s = ''CO2_ENS160''" by simp
    with ns ih show ?thesis by (simp add: 0 ci1_def)
  next
    case (Suc c')
    with that ih show ?thesis by simp
  qed
  moreover have "ai' = ai" if "\<forall>t\<in>set (s # rest). class_name t \<noteq> ''TEMP_AHT21''"
    using that ih by (simp add: ai1_def)
  moreover have "ci' = ci" if "\<forall>t\<in>set (s # rest). class_name t \<noteq> ''CO2_ENS160''"
    using that ih by (simp add: ci1_def)
  ultimately show ?case by blast
qed

lemma pop_append_nth:
  assumes "c < a" "a < length xs"
  shows "(take c xs @ drop (Suc c) xs @ [x]) ! (a - 1) = xs ! a"
    and "(take c xs @ drop (Suc c) xs @ [x]) ! (length xs - 1) = x"
proof -
  have la: "length (take c xs) = c" using assms by simp
  have ld: "length (drop (Suc c) xs) = length xs - Suc c" by simp
  have 1: "\<not> a - 1 < length (take c xs)" using assms la by linarith
  have 2: "a - 1 - length (take c xs) < length (drop (Suc c) xs)" using assms la ld by linarith
  have 3: "Suc c + (a - 1 - length (take c xs)) = a" using assms la by linarith
  have "(take c xs @ drop (Suc c) xs @ [x]) ! (a - 1)
        = (drop (Suc c) xs @ [x]) ! (a - 1 - length (take c xs))"
    using 1 by (simp only: nth_append if_False)
  also have "\<dots> = drop (Suc c) xs ! (a - 1 - length (take c xs))"
    using 2 by (simp only: nth_append if_True)
  also have "\<dots> = xs ! (Suc c + (a - 1 - length (take c xs)))"
    by (rule nth_drop) (use assms in simp)
  finally show "(take c xs @ drop (Suc c) xs @ [x]) ! (a - 1) = xs ! a"
    using 3 by simp
  have 4: "\<not> length xs - 1 < length (take c xs)" using assms la by linarith
  have 5: "\<not> length xs - 1 - length (take c xs) < length (drop (Suc c) xs)"
    using assms la ld by linarith
  have 6: "length xs - 1 - length (take c xs) - length (drop (Suc c) xs) = 0"
    using assms la ld by linarith
  have "(take c xs @ drop (Suc c) xs @ [x]) ! (length xs - 1)
        = (drop (Suc c) xs @ [x]) ! (length xs - 1 - length (take c xs))"
    using 4 by (simp only: nth_append if_False)
  also have "\<dots> = [x] ! (length xs - 1 - length (take c xs) - length (drop (Suc c) xs))"
    using 5 by (simp only: nth_append if_False)
  finally show "(take c xs @ drop (Suc c) xs @ [x]) ! (length xs - 1) = x"
    using 6 by simp
qed

text \<open>
  The positions after the reordering: the CO2 sensor leaves position \<open>c\<close> and is
  appended, the temperature/humidity sensor moves from \<open>a\<close> to \<open>a - 1\<close>.
\<close>

lemma reorder_positions:
  assumes "distinct (map class_name objs)"
    and "a < length objs" and "objs ! a = TEMP_AHT21 d"
    and "c < a" and "objs ! c = CO2_ENS160 d' tc hc"
    and "scan_objects cfg hw 0 objs (None, None) w = Inr ((aht21_index, co2_index), w')"
  shows "aht21_index = Some a \<and> co2_index = Some c
       \<and> (\<exists>objs1. reorder aht21_index co2_index objs = Inr objs1
            \<and> objs1 = take c objs @ drop (Suc c) objs @ [CO2_ENS160 d' tc hc]
            \<and> length objs1 = length objs
            \<and> objs1 ! (a - 1) = TEMP_AHT21 d
            \<and> objs1 ! (length objs1 - 1) = CO2_ENS160 d' tc hc
            \<and> a - 1 < length objs1 - 1)"
proof -
  from scan_objects_indices [OF assms(6) assms(1)] assms(2-5)
  have i: "aht21_index = Some a" "co2_index = Some c" by auto
  have c: "c < length objs" using assms(2,4) by simp
  have r: "reorder aht21_index co2_index objs
           = Inr (take c objs @ drop (Suc c) objs @ [CO2_ENS160 d' tc hc])"
    using assms(4,5) c by (simp add: reorder_def i pop_append_def)
  have n: "(take c objs @ drop (Suc c) objs @ [CO2_ENS160 d' tc hc]) ! (a - 1) = TEMP_AHT21 d"
    using pop_append_nth(1) [OF assms(4) assms(2)] assms(3) by simp
  have l: "length (take c objs @ drop (Suc c) objs @ [CO2_ENS160 d' tc hc]) = length objs"
    using c by simp
  have e: "(take c objs @ drop (Suc c) objs @ [CO2_ENS160 d' tc hc]) ! (length objs - 1)
           = CO2_ENS160 d' tc hc"
    using pop_append_nth(2) [OF assms(4) assms(2)] .
  from i r n l e assms(2,4) show ?thesis by simp
qed


subsection \<open>Compensation of the CO2 sensor\<close>

lemma co2_compensation_Cons:
  "co2_compensation (s # rest)
   = (case s of CO2_ENS160 d tc hc \<Rightarrow> Some (tc, hc) | _ \<Rightarrow> co2_compensation rest)"
  by (cases s) simp_all

lemma aht21_data_Cons:
  "aht21_data (s # rest) = (case s of TEMP_AHT21 d \<Rightarrow> Some d | _ \<Rightarrow> aht21_data rest)"
  by (cases s) simp_all

lemma others_append [simp]: "others (xs @ ys) = (others xs \<and> others ys)"
  by (simp add: others_def)

lemma others_Nil [simp]: "others []"
  by (simp add: others_def)

lemma aht21_data_others: "others pre \<Longrightarrow> aht21_data (pre @ rest) = aht21_data rest"
  by (induction pre) (auto simp: others_def aht21_data_Cons split: sensor.splits)

lemma co2_compensation_others:
  "others pre \<Longrightarrow> co2_compensation (pre @ rest) = co2_compensation rest"
  by (induction pre) (auto simp: others_def co2_compensation_Cons split: sensor.splits)

lemma sample_sensors_append:
  "sample_sensors cfg hw ae ce (xs @ ys) loc w = Inr (r, loc2, w2) \<Longrightarrow>
   \<exists>xs' ys' loc1 w1. sample_sensors cfg hw ae ce xs loc w = Inr (xs', loc1, w1)
      \<and> sample_sensors cfg hw ae ce ys loc1 w1 = Inr (ys', loc2, w2) \<and> r = xs' @ ys'"
proof (induction xs arbitrary: loc w r)
  case Nil
  then show ?case by simp
next
  case (Cons s xs)
  from Cons.prems obtain s1 loca wa r1 where
    s1: "sample_sensor cfg hw ae ce s loc w = Inr (s1, loca, wa)"
    and r1: "sample_sensors cfg hw ae ce (xs @ ys) loca wa = Inr (r1, loc2, w2)"
    and r: "r = s1 # r1"
    by (auto split: sum.splits)
  from Cons.IH [OF r1] obtain xs' ys' loc1 w1 where
    "sample_sensors cfg hw ae ce xs loca wa = Inr (xs', loc1, w1)"
    "sample_sensors cfg hw ae ce ys loc1 w1 = Inr (ys', loc2, w2)" "r1 = xs' @ ys'"
    by blast
  with s1 r show ?case by simp
qed

lemma sample_sensor_other:
  assumes "sample_sensor cfg hw ae ce s loc w = Inr (s', loc', w')"
    and "class_name s \<noteq> ''TEMP_AHT21''"
  shows "loc' = loc"
  using assms by (cases s) (auto split: sum.splits if_splits option.splits)

lemma sample_sensors_others:
  "sample_sensors cfg hw ae ce xs loc w = Inr (xs', loc', w') \<Longrightarrow> others xs \<Longrightarrow>
   loc' = loc \<and> others xs'"
proof (induction xs arbitrary: loc w xs')
  case Nil
  then show ?case by simp
next
  case (Cons s xs)
  from Cons.prems(1) obtain s1 loca wa r1 where
    s1: "sample_sensor cfg hw ae ce s loc w = Inr (s1, loca, wa)"
    and r1: "sample_sensors cfg hw ae ce xs loca wa = Inr (r1, loc', w')"
    and r: "xs' = s1 # r1"
    by (auto split: sum.splits)
  from Cons.prems(2) have o: "class_name s \<noteq> ''TEMP_AHT21''" "class_name s \<noteq> ''CO2_ENS160''"
    "others xs" by (simp_all add: others_def)
  from sample_sensor_other [OF s1 o(1)] have "loca = loc" .
  with Cons.IH [OF r1 o(3)] sample_sensor_class_name [OF s1] o(1,2) r
  show ?case by (simp add: others_def)
qed

lemma sample_sensor_TEMP:
  assumes "sample_sensor cfg hw ae True (TEMP_AHT21 d) loc w = Inr (s', loc', w')"
  shows "\<exists>d' t h. s' = TEMP_AHT21 d' \<and> append_readings hw ''TEMP_AHT21'' d w = Inr (d', w')
          \<and> get_temperature d' = Inr t \<and> get_humidity d' = Inr h \<and> loc' = (Some t, Some h)"
  using assms by (auto split: sum.splits)

lemma sample_sensor_CO2:
  assumes "sample_sensor cfg hw True ce (CO2_ENS160 d tc hc) (Some t, Some h) w = Inr (s', loc', w')"
  shows "\<exists>d'. s' = CO2_ENS160 d' t h \<and> loc' = (Some t, Some h)"
  using assms by (auto split: sum.splits)

lemma append_readings_TEMP:
  assumes "append_readings hw c [(''temperature'', PList xs0), (''relative_humidity'', PList ys0)] w
           = Inr (d', w')"
  shows "\<exists>v1 v2. d' = [(''temperature'', PList (xs0 @ [v1])),
                       (''relative_humidity'', PList (ys0 @ [v2]))]"
  using assms by (auto split: sum.splits)

lemma get_temperature_first:
  "get_temperature [(''temperature'', PList (x # xs)), (''relative_humidity'', PList ys)]
   = Inr (if x \<noteq> 0 then x else 25)"
  by (simp add: get_temperature_def first_sample_def)

lemma get_humidity_first:
  "get_humidity [(''temperature'', PList xs), (''relative_humidity'', PList (y # ys))]
   = Inr (if y \<noteq> 0 then y else 50)"
  by (simp add: get_humidity_def first_sample_def)

lemma sample_round_shape:
  assumes sh: "objs = pre @ TEMP_AHT21 [(''temperature'', PList xs0),
                                        (''relative_humidity'', PList ys0)]
                      # mid @ CO2_ENS160 dC tc hc # post"
    and o: "others pre" "others mid" "others post"
    and s: "sample_sensors cfg hw True True objs loc w = Inr (objs', loc', w')"
  shows "\<exists>pre' v1 v2 mid' dC' post'.
           objs' = pre' @ TEMP_AHT21 [(''temperature'', PList (xs0 @ [v1])),
                                      (''relative_humidity'', PList (ys0 @ [v2]))]
                   # mid' @ CO2_ENS160 dC'
                            (if hd (xs0 @ [v1]) \<noteq> 0 then hd (xs0 @ [v1]) else 25)
                            (if hd (ys0 @ [v2]) \<noteq> 0 then hd (ys0 @ [v2]) else 50) # post'
         \<and> others pre' \<and> others mid' \<and> others post'"
proof -
  define dT where "dT = [(''temperature'', PList xs0), (''relative_humidity'', PList ys0)]"
  from sample_sensors_append [OF s [unfolded sh]] obtain pre' r1 loc1 w1 where
    a: "sample_sensors cfg hw True True pre loc w = Inr (pre', loc1, w1)"
    and b: "sample_sensors cfg hw True True
              (TEMP_AHT21 dT # mid @ CO2_ENS160 dC tc hc # post) loc1 w1 = Inr (r1, loc', w')"
    and c: "objs' = pre' @ r1" unfolding dT_def by blast
  from sample_sensors_others [OF a o(1)] have pre': "others pre'" by simp
  from b obtain sT loc2 w2 r2 where
    t: "sample_sensor cfg hw True True (TEMP_AHT21 dT) loc1 w1 = Inr (sT, loc2, w2)"
    and b2: "sample_sensors cfg hw True True (mid @ CO2_ENS160 dC tc hc # post) loc2 w2
             = Inr (r2, loc', w')"
    and r1: "r1 = sT # r2"
    by (auto simp del: sample_sensor.simps split: sum.splits)
  from sample_sensor_TEMP [OF t] obtain dT' t h where
    sT: "sT = TEMP_AHT21 dT'" and ap: "append_readings hw ''TEMP_AHT21'' dT w1 = Inr (dT', w2)"
    and gt: "get_temperature dT' = Inr t" and gh: "get_humidity dT' = Inr h"
    and loc2: "loc2 = (Some t, Some h)" by blast
  from append_readings_TEMP [OF ap [unfolded dT_def]] obtain v1 v2 where
    dT': "dT' = [(''temperature'', PList (xs0 @ [v1])), (''relative_humidity'', PList (ys0 @ [v2]))]"
    by blast
  obtain x xs where x: "xs0 @ [v1] = x # xs" by (cases "xs0 @ [v1]") auto
  obtain y ys where y: "ys0 @ [v2] = y # ys" by (cases "ys0 @ [v2]") auto
  have tv: "t = (if hd (xs0 @ [v1]) \<noteq> 0 then hd (xs0 @ [v1]) else 25)"
    using gt get_temperature_first [of x xs "ys0 @ [v2]"] by (auto simp add: dT' x split: if_splits)
  have hv: "h = (if hd (ys0 @ [v2]) \<noteq> 0 then hd (ys0 @ [v2]) else 50)"
    using gh get_humidity_first [of "xs0 @ [v1]" y ys] by (auto simp add: dT' y split: if_splits)
  from sample_sensors_append [OF b2] obtain mid' r3 loc3 w3 where
    m: "sample_sensors cfg hw True True mid loc2 w2 = Inr (mid', loc3, w3)"
    and b3: "sample_sensors cfg hw True True (CO2_ENS160 dC tc hc # post) loc3 w3
             = Inr (r3, loc', w')"
    and r2: "r2 = mid' @ r3" by blast
  from sample_sensors_others [OF m o(2)] have mid': "others mid'" and loc3: "loc3 = loc2"
    by simp_all
  from b3 obtain sC loc4 w4 post' where
    cs: "sample_sensor cfg hw True True (CO2_ENS160 dC tc hc) loc3 w3 = Inr (sC, loc4, w4)"
    and ps: "sample_sensors cfg hw True True post loc4 w4 = Inr (post', loc', w')"
    and r3: "r3 = sC # post'"
    by (auto simp del: sample_sensor.simps split: sum.splits)
  from sample_sensor_CO2 [OF cs [unfolded loc3 loc2]] obtain dC' where
    sC: "sC = CO2_ENS160 dC' t h" by blast
  from sample_sensors_others [OF ps o(3)] have post': "others post'" by simp
  have "objs' = pre' @ TEMP_AHT21 dT' # mid' @ CO2_ENS160 dC' t h # post'"
    by (simp add: c r1 r2 r3 sT sC)
  with pre' mid' post' show ?thesis unfolding dT' tv hv by blast
qed

lemma sample_rounds_shape:
  "sample_rounds cfg hw True True (Suc n) objs loc w = Inr (objs2, loc2, w2) \<Longrightarrow>
   objs = pre @ TEMP_AHT21 [(''temperature'', PList xs0), (''relative_humidity'', PList ys0)]
          # mid @ CO2_ENS160 dC tc hc # post \<Longrightarrow>
   others pre \<Longrightarrow> others mid \<Longrightarrow> others post \<Longrightarrow>
   \<exists>pre' xs ys mid' dC' post'.
      objs2 = pre' @ TEMP_AHT21 [(''temperature'', PList (xs0 @ xs)),
                                 (''relative_humidity'', PList (ys0 @ ys))]
              # mid' @ CO2_ENS160 dC'
                       (if hd (xs0 @ xs) \<noteq> 0 then hd (xs0 @ xs) else 25)
                       (if hd (ys0 @ ys) \<noteq> 0 then hd (ys0 @ ys) else 50) # post'
    \<and> length xs = Suc n \<and> length ys = Suc n
    \<and> others pre' \<and> others mid' \<and> others post'"
proof (induction n arbitrary: objs loc w pre xs0 ys0 mid dC tc hc post)
  case 0
  from "0.prems"(1) obtain loc' w' where
    s: "sample_sensors cfg hw True True objs loc w = Inr (objs2, loc', w')"
    by (auto split: sum.splits)
  from sample_round_shape [OF "0.prems"(2-5) s] obtain pre' v1 v2 mid' dC' post' where
    "objs2 = pre' @ TEMP_AHT21 [(''temperature'', PList (xs0 @ [v1])),
                                      (''relative_humidity'', PList (ys0 @ [v2]))]
                   # mid' @ CO2_ENS160 dC'
                            (if hd (xs0 @ [v1]) \<noteq> 0 then hd (xs0 @ [v1]) else 25)
                            (if hd (ys0 @ [v2]) \<noteq> 0 then hd (ys0 @ [v2]) else 50) # post'"
    "others pre'" "others mid'" "others post'" by blast
  moreover have "length [v1] = Suc 0" "length [v2] = Suc 0" by simp_all
  ultimately show ?case by blast
next
  case (Suc n)
  from Suc.prems(1) obtain objs1 loc1 w1 where
    s: "sample_sensors cfg hw True True objs loc w = Inr (objs1, loc1, w1)"
    and r: "sample_rounds cfg hw True True (Suc n) objs1 loc1 (sleep w1) = Inr (objs2, loc2, w2)"
    by (auto simp del: sample_rounds.simps(2) simp add: sample_rounds.simps(2) [of _ _ _ _ "Suc n"]
        split: sum.splits)
  from sample_round_shape [OF Suc.prems(2-5) s] obtain pre1 v1 v2 mid1 dC1 post1 where
    sh1: "objs1 = pre1 @ TEMP_AHT21 [(''temperature'', PList (xs0 @ [v1])),
                                      (''relative_humidity'', PList (ys0 @ [v2]))]
                   # mid1 @ CO2_ENS160 dC1
                            (if hd (xs0 @ [v1]) \<noteq> 0 then hd (xs0 @ [v1]) else 25)
                            (if hd (ys0 @ [v2]) \<noteq> 0 then hd (ys0 @ [v2]) else 50) # post1"
    and o1: "others pre1" "others mid1" "others post1" by blast
  from Suc.IH [OF r sh1 o1] obtain pre' xs ys mid' dC' post' where
    f: "objs2 = pre' @ TEMP_AHT21 [(''temperature'', PList ((xs0 @ [v1]) @ xs)),
                                 (''relative_humidity'', PList ((ys0 @ [v2]) @ ys))]
              # mid' @ CO2_ENS160 dC'
                       (if hd ((xs0 @ [v1]) @ xs) \<noteq> 0 then hd ((xs0 @ [v1]) @ xs) else 25)
                       (if hd ((ys0 @ [v2]) @ ys) \<noteq> 0 then hd ((ys0 @ [v2]) @ ys) else 50)
                # post'"
    and l: "length xs = Suc n" "length ys = Suc n"
    and o2: "others pre'" "others mid'" "others post'" by blast
  have e: "(xs0 @ [v1]) @ xs = xs0 @ (v1 # xs)" "(ys0 @ [v2]) @ ys = ys0 @ (v2 # ys)"
    by simp_all
  have l2: "length (v1 # xs) = Suc (Suc n)" "length (v2 # ys) = Suc (Suc n)"
    using l by simp_all
  from f [unfolded e] l2 o2 show ?case by blast
qed

lemma sample_rounds_add:
  "sample_rounds cfg hw ae ce (m + k) objs loc w =
     (case sample_rounds cfg hw ae ce m objs loc w of
        Inl e \<Rightarrow> Inl e
      | Inr (objs', loc', w') \<Rightarrow> sample_rounds cfg hw ae ce k objs' loc' w')"
  by (induction m arbitrary: objs loc w) (auto split: sum.splits)

lemma shape_observed:
  assumes "objs = pre @ TEMP_AHT21 dT # mid @ CO2_ENS160 dC a b # post"
    and "others pre" "others mid"
  shows "aht21_data objs = Some dT" "co2_compensation objs = Some (a, b)"
  using assms by (simp_all add: aht21_data_others co2_compensation_others)

lemma others_from_distinct:
  assumes d: "distinct (map class_name ys)"
    and t: "TEMP_AHT21 dT \<in> set ys" and c: "CO2_ENS160 dC tc hc \<in> set ys"
    and s: "set xs \<subseteq> set ys - {TEMP_AHT21 dT, CO2_ENS160 dC tc hc}"
  shows "others xs"
proof -
  from d have inj: "inj_on class_name (set ys)" by (simp add: distinct_map)
  have "class_name x \<noteq> ''TEMP_AHT21'' \<and> class_name x \<noteq> ''CO2_ENS160''" if "x \<in> set xs" for x
  proof -
    from that s have x: "x \<in> set ys" "x \<noteq> TEMP_AHT21 dT" "x \<noteq> CO2_ENS160 dC tc hc" by auto
    have "class_name x \<noteq> class_name (TEMP_AHT21 dT)"
      using inj_onD [OF inj _ x(1) t] x(2) by blast
    moreover have "class_name x \<noteq> class_name (CO2_ENS160 dC tc hc)"
      using inj_onD [OF inj _ x(1) c] x(3) by blast
    ultimately show ?thesis by simp
  qed
  then show ?thesis by (simp add: others_def list_all_iff)
qed

lemma split_two:
  assumes d: "distinct (map class_name objs)"
    and t: "TEMP_AHT21 dT \<in> set objs" and c: "CO2_ENS160 dC tc hc \<in> set objs"
  shows "(\<exists>pre mid post. objs = pre @ TEMP_AHT21 dT # mid @ CO2_ENS160 dC tc hc # post
            \<and> others pre \<and> others mid \<and> others post)
       \<or> (\<exists>pre mid post. objs = pre @ CO2_ENS160 dC tc hc # mid @ TEMP_AHT21 dT # post
            \<and> others pre \<and> others mid \<and> others post)"
proof -
  from d have dd: "distinct objs" by (rule distinct_map [THEN iffD1, THEN conjunct1])
  from t obtain A B where ab: "objs = A @ TEMP_AHT21 dT # B" by (auto dest: split_list)
  from c ab have "CO2_ENS160 dC tc hc \<in> set A \<or> CO2_ENS160 dC tc hc \<in> set B" by auto
  then show ?thesis
  proof
    assume "CO2_ENS160 dC tc hc \<in> set B"
    then obtain B1 B2 where b: "B = B1 @ CO2_ENS160 dC tc hc # B2" by (auto dest: split_list)
    have e: "objs = A @ TEMP_AHT21 dT # B1 @ CO2_ENS160 dC tc hc # B2" by (simp add: ab b)
    from dd [unfolded e] have
      "set A \<subseteq> set objs - {TEMP_AHT21 dT, CO2_ENS160 dC tc hc}"
      "set B1 \<subseteq> set objs - {TEMP_AHT21 dT, CO2_ENS160 dC tc hc}"
      "set B2 \<subseteq> set objs - {TEMP_AHT21 dT, CO2_ENS160 dC tc hc}"
      unfolding e by auto
    then have "others A" "others B1" "others B2"
      using others_from_distinct [OF d t c] by blast+
    with e show ?thesis by blast
  next
    assume "CO2_ENS160 dC tc hc \<in> set A"
    then obtain A1 A2 where a: "A = A1 @ CO2_ENS160 dC tc hc # A2" by (auto dest: split_list)
    have e: "objs = A1 @ CO2_ENS160 dC tc hc # A2 @ TEMP_AHT21 dT # B" by (simp add: ab a)
    from dd [unfolded e] have
      "set A1 \<subseteq> set objs - {TEMP_AHT21 dT, CO2_ENS160 dC tc hc}"
      "set A2 \<subseteq> set objs - {TEMP_AHT21 dT, CO2_ENS160 dC tc hc}"
      "set B \<subseteq> set objs - {TEMP_AHT21 dT, CO2_ENS160 dC tc hc}"
      unfolding e by auto
    then have "others A1" "others A2" "others B"
      using others_from_distinct [OF d t c] by blast+
    with e show ?thesis by blast
  qed
qed

lemma sampling_order_shape:
  assumes d: "distinct (map class_name objs)"
    and t: "TEMP_AHT21 dT \<in> set objs" and c: "CO2_ENS160 dC tc hc \<in> set objs"
    and sc: "scan_objects cfg hw 0 objs (None, None) w = Inr ((ai, ci), w1)"
    and ro: "reorder ai ci objs = Inr objs1"
  shows "ai \<noteq> None \<and> ci \<noteq> None
       \<and> (\<exists>pre mid post. objs1 = pre @ TEMP_AHT21 dT # mid @ CO2_ENS160 dC tc hc # post
            \<and> others pre \<and> others mid \<and> others post)"
proof -
  note idx = scan_objects_indices [OF sc d]
  from split_two [OF d t c] show ?thesis
  proof (elim disjE exE conjE)
    fix pre mid post
    assume e: "objs = pre @ TEMP_AHT21 dT # mid @ CO2_ENS160 dC tc hc # post"
      and o: "others pre" "others mid" "others post"
    have na: "objs ! length pre = TEMP_AHT21 dT" by (simp add: e)
    have "objs = (pre @ TEMP_AHT21 dT # mid) @ CO2_ENS160 dC tc hc # post" by (simp add: e)
    then have nc: "objs ! length (pre @ TEMP_AHT21 dT # mid) = CO2_ENS160 dC tc hc"
      by (simp only: nth_append_length)
    have la: "length pre < length objs" and lc: "length (pre @ TEMP_AHT21 dT # mid) < length objs"
      by (simp_all add: e)
    from idx la na have ai: "ai = Some (length pre)" by simp
    from idx lc nc have ci: "ci = Some (length (pre @ TEMP_AHT21 dT # mid))" by simp
    from ro have "objs1 = objs" by (simp add: reorder_def ai ci)
    with e o ai ci show ?thesis by blast
  next
    fix pre mid post
    assume e: "objs = pre @ CO2_ENS160 dC tc hc # mid @ TEMP_AHT21 dT # post"
      and o: "others pre" "others mid" "others post"
    have nc: "objs ! length pre = CO2_ENS160 dC tc hc" by (simp add: e)
    have "objs = (pre @ CO2_ENS160 dC tc hc # mid) @ TEMP_AHT21 dT # post" by (simp add: e)
    then have na: "objs ! length (pre @ CO2_ENS160 dC tc hc # mid) = TEMP_AHT21 dT"
      by (simp only: nth_append_length)
    have lc: "length pre < length objs" and la: "length (pre @ CO2_ENS160 dC tc hc # mid) < length objs"
      by (simp_all add: e)
    from idx la na have ai: "ai = Some (length (pre @ CO2_ENS160 dC tc hc # mid))" by simp
    from idx lc nc have ci: "ci = Some (length pre)" by simp
    have "pop_append (length pre) objs
          = Inr (pre @ (mid @ TEMP_AHT21 dT # post) @ [CO2_ENS160 dC tc hc])"
      by (simp add: pop_append_def e)
    with ro have "objs1 = (pre @ mid) @ TEMP_AHT21 dT # post @ CO2_ENS160 dC tc hc # []"
      by (simp add: reorder_def ai ci)
    moreover have "others (pre @ mid)" "others []" using o by simp_all
    ultimately show ?thesis using o(3) ai ci by blast
  qed
qed

lemma compensation_rounds:
  assumes d: "distinct (map class_name objs)"
    and t: "TEMP_AHT21 [(''temperature'', PList []), (''relative_humidity'', PList [])] \<in> set objs"
    and c: "CO2_ENS160 dC tc hc \<in> set objs"
    and sc: "scan_objects cfg hw 0 objs (None, None) w = Inr ((ai, ci), w1)"
    and ro: "reorder ai ci objs = Inr objs1"
    and n: "0 < n"
    and r: "sample_rounds cfg hw (ai \<noteq> None) (ci \<noteq> None) n objs1 (None, None) w1
            = Inr (objs2, loc2, w2)"
  shows "\<exists>xs ys. length xs = n \<and> length ys = n
          \<and> (\<forall>m. 0 < m \<and> m \<le> n \<longrightarrow>
                (\<exists>objsm locm wm.
                   sample_rounds cfg hw (ai \<noteq> None) (ci \<noteq> None) m objs1 (None, None) w1
                     = Inr (objsm, locm, wm)
                 \<and> aht21_data objsm = Some [(''temperature'', PList (take m xs)),
                                             (''relative_humidity'', PList (take m ys))]
                 \<and> co2_compensation objsm
                     = Some (if hd xs \<noteq> 0 then hd xs else 25, if hd ys \<noteq> 0 then hd ys else 50)))"
proof -
  from sampling_order_shape [OF d t c sc ro] obtain pre mid post where
    ai: "(ai \<noteq> None) = True" and ci: "(ci \<noteq> None) = True"
    and sh: "objs1 = pre @ TEMP_AHT21 [(''temperature'', PList []), (''relative_humidity'', PList [])]
                     # mid @ CO2_ENS160 dC tc hc # post"
    and o: "others pre" "others mid" "others post" by auto
  note r' = r [unfolded ai ci]
  from n obtain n' where n': "n = Suc n'" by (cases n) auto
  from sample_rounds_shape [OF r' [unfolded n'] sh o] obtain pre2 xs ys mid2 dC2 post2 where
    sh2: "objs2 = pre2 @ TEMP_AHT21 [(''temperature'', PList ([] @ xs)),
                                     (''relative_humidity'', PList ([] @ ys))]
              # mid2 @ CO2_ENS160 dC2
                       (if hd ([] @ xs) \<noteq> 0 then hd ([] @ xs) else 25)
                       (if hd ([] @ ys) \<noteq> 0 then hd ([] @ ys) else 50) # post2"
    and l: "length xs = Suc n'" "length ys = Suc n'"
    and o2: "others pre2" "others mid2" "others post2" by blast
  note ob2 = shape_observed [OF sh2 o2(1,2), simplified]
  have "\<exists>objsm locm wm.
           sample_rounds cfg hw True True m objs1 (None, None) w1 = Inr (objsm, locm, wm)
         \<and> aht21_data objsm = Some [(''temperature'', PList (take m xs)),
                                     (''relative_humidity'', PList (take m ys))]
         \<and> co2_compensation objsm
             = Some (if hd xs \<noteq> 0 then hd xs else 25, if hd ys \<noteq> 0 then hd ys else 50)"
    if m: "0 < m" "m \<le> n" for m
  proof -
    from m obtain m' where m': "m = Suc m'" by (cases m) auto
    from m have nm: "n = m + (n - m)" by simp
    from r' sample_rounds_add [of cfg hw True True m "n - m" objs1 "(None, None)" w1] nm
    obtain objsm locm wm where
      rm: "sample_rounds cfg hw True True m objs1 (None, None) w1 = Inr (objsm, locm, wm)"
      and rk: "sample_rounds cfg hw True True (n - m) objsm locm wm = Inr (objs2, loc2, w2)"
      by (auto split: sum.splits)
    from sample_rounds_shape [OF rm [unfolded m'] sh o] obtain prem xsm ysm midm dCm postm where
      shm: "objsm = prem @ TEMP_AHT21 [(''temperature'', PList ([] @ xsm)),
                                     (''relative_humidity'', PList ([] @ ysm))]
              # midm @ CO2_ENS160 dCm
                       (if hd ([] @ xsm) \<noteq> 0 then hd ([] @ xsm) else 25)
                       (if hd ([] @ ysm) \<noteq> 0 then hd ([] @ ysm) else 50) # postm"
      and lm: "length xsm = Suc m'" "length ysm = Suc m'"
      and om: "others prem" "others midm" "others postm" by blast
    note obm = shape_observed [OF shm om(1,2), simplified]
    have pre: "xsm = take m xs \<and> ysm = take m ys"
    proof (cases "n - m")
      case 0
      with rk have "objs2 = objsm" by simp
      with ob2(1) obm(1) have "xs = xsm" "ys = ysm" by simp_all
      with lm m' show ?thesis by simp
    next
      case (Suc k)
      from sample_rounds_shape [OF rk [unfolded Suc] shm [simplified] om]
      obtain pre3 xs3 ys3 mid3 dC3 post3 where
        sh3: "objs2 = pre3 @ TEMP_AHT21 [(''temperature'', PList (xsm @ xs3)),
                                     (''relative_humidity'', PList (ysm @ ys3))]
              # mid3 @ CO2_ENS160 dC3
                       (if hd (xsm @ xs3) \<noteq> 0 then hd (xsm @ xs3) else 25)
                       (if hd (ysm @ ys3) \<noteq> 0 then hd (ysm @ ys3) else 50) # post3"
        and o3: "others pre3" "others mid3" "others post3" by blast
      from shape_observed(1) [OF sh3 o3(1,2)] ob2(1) have "xs = xsm @ xs3" "ys = ysm @ ys3"
        by simp_all
      with lm m' show ?thesis by simp
    qed
    have "xsm \<noteq> []" "ysm \<noteq> []" using lm by auto
    with pre have "hd xsm = hd xs" "hd ysm = hd ys" using m(1) by (simp_all add: hd_take)
    with rm obm pre show ?thesis by auto
  qed
  with l n' show ?thesis unfolding ai ci by blast
qed

subsection \<open>The steps of one round\<close>

lemma append_readings_ticks:
  "append_readings hw c d w = Inr (d', w') \<Longrightarrow>
   ticks w' = ticks w + length d \<and> length d' = length d"
proof (induction d arbitrary: w d')
  case Nil
  then show ?case by simp
next
  case (Cons p d)
  obtain key slot where p: "p = (key, slot)" by (cases p)
  from Cons.prems obtain xs v rest' where
    r: "append_readings hw c d (tick w) = Inr (rest', w')"
    and d': "d' = (key, PList (xs @ [v])) # rest'"
    by (auto simp: p split: pyval.splits sum.splits)
  from Cons.IH [OF r] show ?case by (simp add: d' tick_def)
qed

lemma co2_attempts_ticks:
  "co2_attempts hw n key slot w = Inr (slot', w') \<Longrightarrow> ticks w \<le> ticks w'"
proof (induction n arbitrary: w)
  case 0
  then show ?case by simp
next
  case (Suc n)
  from Suc.prems Suc.IH [of "sleep (tick w)"] show ?case
    by (auto simp: tick_def sleep_def split: sum.splits if_splits pyval.splits)
qed

lemma co2_collect_ticks:
  "co2_collect cfg hw d w = Inr (d', w') \<Longrightarrow> ticks w \<le> ticks w'"
proof (induction d arbitrary: w d')
  case Nil
  then show ?case by simp
next
  case (Cons p d)
  obtain key slot where p: "p = (key, slot)" by (cases p)
  from Cons.prems obtain slot1 w1 rest' where
    a: "co2_attempts hw (CO2_ATTEMPTS cfg) key slot w = Inr (slot1, w1)"
    and r: "co2_collect cfg hw d w1 = Inr (rest', w')"
    by (auto simp: p split: sum.splits)
  from co2_attempts_ticks [OF a] Cons.IH [OF r] show ?case by simp
qed

lemma collect_ticks:
  "collect_data_for_median cfg hw s w = Inr (s', w') \<Longrightarrow> ticks w \<le> ticks w'"
  by (cases s) (auto split: sum.splits dest: co2_collect_ticks append_readings_ticks)

lemma sample_sensor_ticks:
  "sample_sensor cfg hw ae ce s loc w = Inr (s', loc', w') \<Longrightarrow> ticks w \<le> ticks w'"
  by (cases s)
    (auto simp del: collect_data_for_median.simps split: sum.splits if_splits option.splits
      dest: collect_ticks)

lemma sample_sensors_ticks:
  "sample_sensors cfg hw ae ce objs loc w = Inr (objs', loc', w') \<Longrightarrow> ticks w \<le> ticks w'"
proof (induction objs arbitrary: loc w objs')
  case Nil
  then show ?case by simp
next
  case (Cons s objs)
  from Cons.prems obtain s1 loc1 w1 rest' where
    s1: "sample_sensor cfg hw ae ce s loc w = Inr (s1, loc1, w1)"
    and r: "sample_sensors cfg hw ae ce objs loc1 w1 = Inr (rest', loc', w')"
    by (auto split: sum.splits)
  from sample_sensor_ticks [OF s1] Cons.IH [OF r] show ?case by simp
qed

lemma sample_sensors_length:
  "sample_sensors cfg hw ae ce objs loc w = Inr (objs', loc', w') \<Longrightarrow> length objs' = length objs"
  using sample_sensors_rel [of cfg hw ae ce objs loc w objs' loc' w' 0]
  by (auto dest: list_all2_lengthD)

lemma sample_sensor_TEMP_collect:
  assumes "sample_sensor cfg hw ae True (TEMP_AHT21 d) loc w = Inr (s', loc', w')"
  shows "\<exists>d' t h. s' = TEMP_AHT21 d'
          \<and> collect_data_for_median cfg hw (TEMP_AHT21 d) w = Inr (TEMP_AHT21 d', w')
          \<and> get_temperature d' = Inr t \<and> get_humidity d' = Inr h \<and> loc' = (Some t, Some h)
          \<and> ticks w' = ticks w + length d \<and> length d' = length d"
proof -
  from sample_sensor_TEMP [OF assms] obtain d' t h where
    a: "s' = TEMP_AHT21 d'" "append_readings hw ''TEMP_AHT21'' d w = Inr (d', w')"
    "get_temperature d' = Inr t" "get_humidity d' = Inr h" "loc' = (Some t, Some h)" by blast
  from append_readings_ticks [OF a(2)] a show ?thesis by simp
qed

lemma sample_sensor_CO2_collect:
  assumes "sample_sensor cfg hw True ce (CO2_ENS160 d tc hc) (Some t, Some h) w = Inr (s', loc', w')"
  shows "\<exists>d'. s' = CO2_ENS160 d' t h \<and> loc' = (Some t, Some h)
          \<and> collect_data_for_median cfg hw (CO2_ENS160 d t h) w = Inr (CO2_ENS160 d' t h, w')"
  using assms by (auto split: sum.splits)

lemma sample_round_steps:
  assumes sh: "objs = pre @ TEMP_AHT21 dT # mid @ CO2_ENS160 dC tc hc # post"
    and o: "others pre" "others mid" "others post"
    and s: "sample_sensors cfg hw True True objs loc w = Inr (objs', loc', w')"
  shows "\<exists>dT' t h pre' mid' dC' post'.
           round_steps cfg hw objs loc w (length pre) (length (pre @ TEMP_AHT21 dT # mid)) dT' t h
         \<and> objs' = pre' @ TEMP_AHT21 dT' # mid' @ CO2_ENS160 dC' t h # post'
         \<and> length pre' = length pre \<and> length mid' = length mid \<and> length dT' = length dT
         \<and> others pre' \<and> others mid' \<and> others post'"
proof -
  from sample_sensors_append [OF s [unfolded sh]] obtain pre' r1 loc1 wa where
    a: "sample_sensors cfg hw True True pre loc w = Inr (pre', loc1, wa)"
    and b: "sample_sensors cfg hw True True
              (TEMP_AHT21 dT # mid @ CO2_ENS160 dC tc hc # post) loc1 wa = Inr (r1, loc', w')"
    and c: "objs' = pre' @ r1" by blast
  from sample_sensors_others [OF a o(1)] have pre': "others pre'" and loc1: "loc1 = loc"
    by simp_all
  from b obtain sT loc2 wb r2 where
    t: "sample_sensor cfg hw True True (TEMP_AHT21 dT) loc1 wa = Inr (sT, loc2, wb)"
    and b2: "sample_sensors cfg hw True True (mid @ CO2_ENS160 dC tc hc # post) loc2 wb
             = Inr (r2, loc', w')"
    and r1: "r1 = sT # r2"
    by (auto simp del: sample_sensor.simps split: sum.splits)
  from sample_sensor_TEMP_collect [OF t] obtain dT' t h where
    sT: "sT = TEMP_AHT21 dT'"
    and ct: "collect_data_for_median cfg hw (TEMP_AHT21 dT) wa = Inr (TEMP_AHT21 dT', wb)"
    and gt: "get_temperature dT' = Inr t" and gh: "get_humidity dT' = Inr h"
    and loc2: "loc2 = (Some t, Some h)"
    and tk: "ticks wb = ticks wa + length dT" and ld: "length dT' = length dT" by blast
  from sample_sensors_append [OF b2] obtain mid' r3 loc3 wc where
    m: "sample_sensors cfg hw True True mid loc2 wb = Inr (mid', loc3, wc)"
    and b3: "sample_sensors cfg hw True True (CO2_ENS160 dC tc hc # post) loc3 wc
             = Inr (r3, loc', w')"
    and r2: "r2 = mid' @ r3" by blast
  from sample_sensors_others [OF m o(2)] have mid': "others mid'" and loc3: "loc3 = loc2"
    by simp_all
  from b3 obtain sC loc4 wd post' where
    cs: "sample_sensor cfg hw True True (CO2_ENS160 dC tc hc) loc3 wc = Inr (sC, loc4, wd)"
    and ps: "sample_sensors cfg hw True True post loc4 wd = Inr (post', loc', w')"
    and r3: "r3 = sC # post'"
    by (auto simp del: sample_sensor.simps split: sum.splits)
  from sample_sensor_CO2_collect [OF cs [unfolded loc3 loc2]] obtain dC' where
    sC: "sC = CO2_ENS160 dC' t h" and loc4: "loc4 = (Some t, Some h)"
    and cc: "collect_data_for_median cfg hw (CO2_ENS160 dC t h) wc = Inr (CO2_ENS160 dC' t h, wd)"
    by blast
  from sample_sensors_others [OF ps o(3)] have post': "others post'" and loc': "loc' = loc4"
    by simp_all
  have e: "objs' = pre' @ TEMP_AHT21 dT' # mid' @ CO2_ENS160 dC' t h # post'"
    by (simp add: c r1 r2 r3 sT sC)
  have "round_steps cfg hw objs loc w (length pre) (length (pre @ TEMP_AHT21 dT # mid)) dT' t h"
    unfolding round_steps_def
    apply (rule exI [of _ pre], rule exI [of _ dT], rule exI [of _ mid], rule exI [of _ dC])
    apply (rule exI [of _ tc], rule exI [of _ hc], rule exI [of _ post], rule exI [of _ pre'])
    apply (rule exI [of _ wa], rule exI [of _ wb], rule exI [of _ mid'], rule exI [of _ wc])
    apply (rule exI [of _ dC'], rule exI [of _ wd], rule exI [of _ post'], rule exI [of _ w'])
    using sh o a [unfolded loc1] ct gt gh m [unfolded loc2 loc3] cc ps [unfolded loc4 loc']
      s [unfolded e loc' loc4] tk sample_sensors_ticks [OF m]
    by (simp add: loc2 loc3)
  moreover have "length pre' = length pre" "length mid' = length mid"
    using sample_sensors_length [OF a] sample_sensors_length [OF m] by simp_all
  ultimately show ?thesis using e ld pre' mid' post' by blast
qed

lemma sample_rounds_keep_shape:
  "sample_rounds cfg hw True True m objs loc w = Inr (objsm, locm, wm) \<Longrightarrow>
   objs = pre @ TEMP_AHT21 dT # mid @ CO2_ENS160 dC tc hc # post \<Longrightarrow>
   others pre \<Longrightarrow> others mid \<Longrightarrow> others post \<Longrightarrow>
   \<exists>prem dTm midm dCm tcm hcm postm.
      objsm = prem @ TEMP_AHT21 dTm # midm @ CO2_ENS160 dCm tcm hcm # postm
    \<and> length prem = length pre \<and> length midm = length mid \<and> length dTm = length dT
    \<and> others prem \<and> others midm \<and> others postm"
proof (induction m arbitrary: objs loc w pre dT mid dC tc hc post)
  case 0
  then have "objsm = pre @ TEMP_AHT21 dT # mid @ CO2_ENS160 dC tc hc # post" by simp
  with "0.prems"(3-5) show ?case by blast
next
  case (Suc m)
  from Suc.prems(1) obtain objs1 loc1 w1 where
    s: "sample_sensors cfg hw True True objs loc w = Inr (objs1, loc1, w1)"
    and r: "sample_rounds cfg hw True True m objs1 loc1 (sleep w1) = Inr (objsm, locm, wm)"
    by (auto split: sum.splits)
  from sample_round_steps [OF Suc.prems(2-5) s] obtain dT1 t h pre1 mid1 dC1 post1 where
    e: "objs1 = pre1 @ TEMP_AHT21 dT1 # mid1 @ CO2_ENS160 dC1 t h # post1"
    and l: "length pre1 = length pre" "length mid1 = length mid" "length dT1 = length dT"
    and o: "others pre1" "others mid1" "others post1" by blast
  from Suc.IH [OF r e o] l show ?case by simp
qed

lemma rounds_in_order:
  assumes sh: "objs = pre @ TEMP_AHT21 dT # mid @ CO2_ENS160 dC tc hc # post"
    and o: "others pre" "others mid" "others post"
    and r: "sample_rounds cfg hw True True n objs loc w = Inr (objs2, loc2, w2)"
    and m: "m < n"
  shows "\<exists>objsm locm wm dT' t h objs' loc' w'.
           sample_rounds cfg hw True True m objs loc w = Inr (objsm, locm, wm)
         \<and> round_steps cfg hw objsm locm wm (length pre) (length (pre @ TEMP_AHT21 dT # mid))
              dT' t h
         \<and> length dT' = length dT
         \<and> sample_sensors cfg hw True True objsm locm wm = Inr (objs', loc', w')
         \<and> sample_rounds cfg hw True True (Suc m) objs loc w = Inr (objs', loc', sleep w')"
proof -
  from m obtain k where n: "n = m + Suc k" by (auto simp: less_iff_Suc_add)
  from r sample_rounds_add [of cfg hw True True m "Suc k" objs loc w] n
  obtain objsm locm wm where
    rm: "sample_rounds cfg hw True True m objs loc w = Inr (objsm, locm, wm)"
    and rk: "sample_rounds cfg hw True True (Suc k) objsm locm wm = Inr (objs2, loc2, w2)"
    by (auto split: sum.splits)
  from rk obtain objs' loc' w' where
    s: "sample_sensors cfg hw True True objsm locm wm = Inr (objs', loc', w')"
    by (auto split: sum.splits)
  from sample_rounds_keep_shape [OF rm sh o] obtain prem dTm midm dCm tcm hcm postm where
    e: "objsm = prem @ TEMP_AHT21 dTm # midm @ CO2_ENS160 dCm tcm hcm # postm"
    and l: "length prem = length pre" "length midm = length mid" "length dTm = length dT"
    and om: "others prem" "others midm" "others postm" by blast
  from sample_round_steps [OF e om s] obtain dT' t h where
    rs: "round_steps cfg hw objsm locm wm (length prem) (length (prem @ TEMP_AHT21 dTm # midm))
           dT' t h"
    and ld: "length dT' = length dTm" by blast
  have q: "length (prem @ TEMP_AHT21 dTm # midm) = length (pre @ TEMP_AHT21 dT # mid)"
    using l by simp
  have "sample_rounds cfg hw True True (m + 1) objs loc w = Inr (objs', loc', sleep w')"
    unfolding sample_rounds_add [of cfg hw True True m 1 objs loc w] using rm s by simp
  with rm rs [unfolded l(1) q] ld l(3) s show ?thesis by auto
qed

lemma gather_Inr:
  assumes "gather_sensor_data cfg hw objs w = Inr (objs2, w2)"
  shows "\<exists>ai ci w1 objs1 loc2.
           scan_objects cfg hw 0 objs (None, None) w = Inr ((ai, ci), w1)
         \<and> reorder ai ci objs = Inr objs1
         \<and> sample_rounds cfg hw (ai \<noteq> None) (ci \<noteq> None) (NUM_READINGS cfg) objs1
              (None, None) w1 = Inr (objs2, loc2, w2)"
  using assms by (auto simp: gather_sensor_data_def split: sum.splits prod.splits)

lemma co2_first_shape:
  assumes d: "distinct (map class_name objs)"
    and a: "a < length objs" "objs ! a = TEMP_AHT21 dT"
    and c: "c < a" "objs ! c = CO2_ENS160 dC tc hc"
  shows "\<exists>pre mid post. objs = pre @ CO2_ENS160 dC tc hc # mid @ TEMP_AHT21 dT # post
          \<and> length pre = c \<and> length (pre @ CO2_ENS160 dC tc hc # mid) = a
          \<and> others pre \<and> others mid \<and> others post"
proof -
  from d have dd: "distinct objs" by (rule distinct_map [THEN iffD1, THEN conjunct1])
  have t: "TEMP_AHT21 dT \<in> set objs" using a by (metis nth_mem)
  have cl: "c < length objs" using a c by simp
  have cc: "CO2_ENS160 dC tc hc \<in> set objs" using cl c(2) by (metis nth_mem)
  from split_two [OF d t cc] show ?thesis
  proof (elim disjE exE conjE)
    fix pre mid post
    assume e: "objs = pre @ TEMP_AHT21 dT # mid @ CO2_ENS160 dC tc hc # post"
    have "objs ! length pre = TEMP_AHT21 dT" by (simp add: e)
    moreover have "length pre < length objs" by (simp add: e)
    ultimately have 1: "length pre = a"
      using a nth_eq_iff_index_eq [OF dd, of "length pre" a] by simp
    have "objs = (pre @ TEMP_AHT21 dT # mid) @ CO2_ENS160 dC tc hc # post" by (simp add: e)
    then have "objs ! length (pre @ TEMP_AHT21 dT # mid) = CO2_ENS160 dC tc hc"
      by (simp only: nth_append_length)
    moreover have "length (pre @ TEMP_AHT21 dT # mid) < length objs" by (simp add: e)
    ultimately have 2: "length (pre @ TEMP_AHT21 dT # mid) = c"
      using cl c(2) nth_eq_iff_index_eq [OF dd, of "length (pre @ TEMP_AHT21 dT # mid)" c]
      by simp
    from 1 2 c(1) have False by simp
    then show ?thesis ..
  next
    fix pre mid post
    assume e: "objs = pre @ CO2_ENS160 dC tc hc # mid @ TEMP_AHT21 dT # post"
      and o: "others pre" "others mid" "others post"
    have "objs ! length pre = CO2_ENS160 dC tc hc" by (simp add: e)
    moreover have "length pre < length objs" by (simp add: e)
    ultimately have 1: "length pre = c"
      using cl c(2) nth_eq_iff_index_eq [OF dd, of "length pre" c] by simp
    have "objs = (pre @ CO2_ENS160 dC tc hc # mid) @ TEMP_AHT21 dT # post" by (simp add: e)
    then have "objs ! length (pre @ CO2_ENS160 dC tc hc # mid) = TEMP_AHT21 dT"
      by (simp only: nth_append_length)
    moreover have "length (pre @ CO2_ENS160 dC tc hc # mid) < length objs" by (simp add: e)
    ultimately have 2: "length (pre @ CO2_ENS160 dC tc hc # mid) = a"
      using a nth_eq_iff_index_eq [OF dd, of "length (pre @ CO2_ENS160 dC tc hc # mid)" a]
      by simp
    from e o 1 2 show ?thesis by blast
  qed
qed

text \<open>
  C5. Take sensors of distinct classes with the temperature/humidity sensor at position
  \<open>a\<close> and the CO2 sensor at an earlier position \<open>c\<close>, and a run of
  \<^verbatim>\<open>_gather_sensor_data\<close> that completes. Its first loop records exactly these two
  positions; the reordering removes the CO2 sensor from position \<open>c\<close> and appends it, so
  that the temperature/humidity sensor is at position \<open>a - 1\<close> and the CO2 sensor is
  last; the rounds are run on this reordered list; and in every round the
  temperature/humidity sensor is sampled before the CO2 sensor, the first at position
  \<open>a - 1\<close> and the second at the last position, every access to the hardware of the
  first sampling coming before every access of the second (\<open>round_steps\<close>).
\<close>

theorem temp_sampled_before_co2:
  assumes "distinct (map class_name objs)"
    and "a < length objs" and "objs ! a = TEMP_AHT21 d"
    and "c < a" and "objs ! c = CO2_ENS160 d' tc hc"
    and "gather_sensor_data cfg hw objs w = Inr (objs2, w2)"
  shows "\<exists>w1 objs1 loc2.
           scan_objects cfg hw 0 objs (None, None) w = Inr ((Some a, Some c), w1)
         \<and> reorder (Some a) (Some c) objs = Inr objs1
         \<and> objs1 = take c objs @ drop (Suc c) objs @ [CO2_ENS160 d' tc hc]
         \<and> objs1 ! (a - 1) = TEMP_AHT21 d
         \<and> objs1 ! (length objs - 1) = CO2_ENS160 d' tc hc
         \<and> sample_rounds cfg hw True True (NUM_READINGS cfg) objs1 (None, None) w1
             = Inr (objs2, loc2, w2)
         \<and> (\<forall>m<NUM_READINGS cfg. \<exists>objsm locm wm dT' t h.
               sample_rounds cfg hw True True m objs1 (None, None) w1 = Inr (objsm, locm, wm)
             \<and> round_steps cfg hw objsm locm wm (a - 1) (length objs - 1) dT' t h)"
proof -
  from gather_Inr [OF assms(6)] obtain ai ci w1 objs1 loc2 where
    sc: "scan_objects cfg hw 0 objs (None, None) w = Inr ((ai, ci), w1)"
    and ro: "reorder ai ci objs = Inr objs1"
    and sr: "sample_rounds cfg hw (ai \<noteq> None) (ci \<noteq> None) (NUM_READINGS cfg) objs1
               (None, None) w1 = Inr (objs2, loc2, w2)" by blast
  have cl: "c < length objs" using assms(2,4) by simp
  from scan_objects_indices [OF sc assms(1)] assms(2,3,5) cl
  have i: "ai = Some a" "ci = Some c" by auto
  from co2_first_shape [OF assms(1-5)] obtain pre mid post where
    e: "objs = pre @ CO2_ENS160 d' tc hc # mid @ TEMP_AHT21 d # post"
    and l: "length pre = c" "length (pre @ CO2_ENS160 d' tc hc # mid) = a"
    and o: "others pre" "others mid" "others post" by blast
  have r1: "reorder (Some a) (Some c) objs
            = Inr (take c objs @ drop (Suc c) objs @ [CO2_ENS160 d' tc hc])"
    using assms(4,5) cl by (simp add: reorder_def pop_append_def)
  with ro i have o1: "objs1 = take c objs @ drop (Suc c) objs @ [CO2_ENS160 d' tc hc]" by simp
  have sh: "objs1 = (pre @ mid) @ TEMP_AHT21 d # post @ CO2_ENS160 d' tc hc # []"
    unfolding o1 l(1) [symmetric] by (simp add: e)
  have n1: "objs1 ! (a - 1) = TEMP_AHT21 d"
    unfolding o1 using pop_append_nth(1) [OF assms(4) assms(2)] assms(3) by simp
  have n2: "objs1 ! (length objs - 1) = CO2_ENS160 d' tc hc"
    unfolding o1 using pop_append_nth(2) [OF assms(4) assms(2)] .
  have p: "length (pre @ mid) = a - 1" using l by simp
  have q: "length ((pre @ mid) @ TEMP_AHT21 d # post) = length objs - 1" by (simp add: e)
  have oo: "others (pre @ mid)" "others []" using o by simp_all
  note sr' = sr [unfolded i, simplified]
  have "\<exists>objsm locm wm dT' t h.
               sample_rounds cfg hw True True m objs1 (None, None) w1 = Inr (objsm, locm, wm)
             \<and> round_steps cfg hw objsm locm wm (a - 1) (length objs - 1) dT' t h"
    if "m < NUM_READINGS cfg" for m
    using rounds_in_order [OF sh oo(1) o(3) oo(2) sr' that] unfolding p q by blast
  with sc [unfolded i] r1 o1 n1 n2 sr' show ?thesis by blast
qed

theorem temp_sampled_before_co2_witness:
  "gather_sensor_data config_py stuck_aqi [init_CO2_ENS160, Camera, init_TEMP_AHT21] world0
   = Inr ([Camera,
           TEMP_AHT21
            [(''temperature'', PList [21, 21, 7, 7, 7, 7, 7, 7, 7, 7]),
             (''relative_humidity'', PList [21, 21, 7, 7, 7, 7, 7, 7, 7, 7])],
           CO2_ENS160
            [(''AQI'', PList [21, 21, 7, 7, 7, 7, 7, 7, 7, 7]),
             (''TVOC'', PList [21, 7, 7, 7, 7, 7, 7, 7, 7]),
             (''eCO2'', PList [21, 7, 7, 7, 7, 7, 7, 7, 7, 7])] 21 21],
          \<lparr>ticks = 55, sleeps = 15, waited = 0\<rparr>)
   \<and> reorder (Some 2) (Some 0) [init_CO2_ENS160, Camera, init_TEMP_AHT21]
       = Inr [Camera, init_TEMP_AHT21, init_CO2_ENS160]"
  (is "?G \<and> ?R")
proof -
  have h1: "distinct (map class_name [init_CO2_ENS160, Camera, init_TEMP_AHT21])"
    by code_simp
  have h2: "2 < length [init_CO2_ENS160, Camera, init_TEMP_AHT21]" by simp
  have h3: "[init_CO2_ENS160, Camera, init_TEMP_AHT21] ! 2
            = TEMP_AHT21 [(''temperature'', PList []), (''relative_humidity'', PList [])]"
    by (simp add: init_TEMP_AHT21_def)
  have h4: "(0::nat) < 2" by simp
  have h5: "[init_CO2_ENS160, Camera, init_TEMP_AHT21] ! 0
            = CO2_ENS160 [(''AQI'', PList []), (''TVOC'', PList []), (''eCO2'', PList [])] 25 50"
    by (simp add: init_CO2_ENS160_def)
  have h6: ?G by code_simp
  from temp_sampled_before_co2 [OF h1 h2 h3 h4 h5 h6] obtain w1 objs1 loc2 where
    r: "reorder (Some 2) (Some 0) [init_CO2_ENS160, Camera, init_TEMP_AHT21] = Inr objs1"
    and o: "objs1 = take 0 [init_CO2_ENS160, Camera, init_TEMP_AHT21]
             @ drop (Suc 0) [init_CO2_ENS160, Camera, init_TEMP_AHT21]
             @ [CO2_ENS160 [(''AQI'', PList []), (''TVOC'', PList []), (''eCO2'', PList [])] 25 50]"
    by (elim exE conjE)
  from r o have rr: ?R by (simp add: init_CO2_ENS160_def)
  show ?thesis by (rule conjI [OF h6 rr])
qed

end
